theory Spec2Isabelle
  imports Complex_Main "HOL-Library.AList" "HOL-Library.Char_ord" "HOL-Library.List_Lexorder"
begin

section \<open>Text primitives of the Python runtime\<close>

text \<open>
  Text is modelled as \<open>string\<close> (a list of 8-bit characters) and restricted to ASCII: the
  character classes below are the ASCII part of what Python's \<open>str.strip\<close>, \<open>str.upper\<close>,
  \<open>str.splitlines\<close> and the \<open>re\<close> classes \<open>\s\<close>, \<open>\d\<close>, \<open>\w\<close> recognise. Characters above
  127 are left unchanged by \<open>upper_char\<close> and belong to no class.
\<close>

definition is_space :: "char \<Rightarrow> bool" where
  \<comment> \<open>\<open>str.isspace\<close> on ASCII: TAB, LF, VT, FF, CR, FS, GS, RS, US and the blank.\<close>
  "is_space c = (c \<in> set [CHR 0x09, CHR 0x0A, CHR 0x0B, CHR 0x0C, CHR 0x0D,
                            CHR 0x1C, CHR 0x1D, CHR 0x1E, CHR 0x1F, CHR '' ''])"

definition is_digit :: "char \<Rightarrow> bool" where
  "is_digit c = (c \<in> set ''0123456789'')"

definition lower_letters :: string where
  "lower_letters = ''abcdefghijklmnopqrstuvwxyz''"

definition upper_letters :: string where
  "upper_letters = ''ABCDEFGHIJKLMNOPQRSTUVWXYZ''"

definition is_word :: "char \<Rightarrow> bool" where
  \<comment> \<open>the class \<open>\w\<close>\<close>
  "is_word c = (c \<in> set lower_letters \<or> c \<in> set upper_letters \<or> is_digit c \<or> c = CHR ''_'')"

definition upper_char :: "char \<Rightarrow> char" where
  "upper_char c = (case map_of (zip lower_letters upper_letters) c of Some u \<Rightarrow> u | None \<Rightarrow> c)"

definition upper :: "string \<Rightarrow> string" where
  "upper s = map upper_char s"

definition rstrip_chars :: "string \<Rightarrow> string \<Rightarrow> string" where
  \<comment> \<open>\<open>s.rstrip(cs)\<close>\<close>
  "rstrip_chars cs s = rev (dropWhile (\<lambda>c. c \<in> set cs) (rev s))"

definition strip :: "string \<Rightarrow> string" where
  \<comment> \<open>\<open>s.strip()\<close>\<close>
  "strip s = rev (dropWhile is_space (rev (dropWhile is_space s)))"

definition is_linebreak :: "char \<Rightarrow> bool" where
  \<comment> \<open>the ASCII line boundaries of \<open>str.splitlines\<close>: LF, VT, FF, CR, FS, GS, RS\<close>
  "is_linebreak c = (c \<in> set [CHR 0x0A, CHR 0x0B, CHR 0x0C, CHR 0x0D, CHR 0x1C, CHR 0x1D, CHR 0x1E])"

fun splitlines_from :: "string \<Rightarrow> string \<Rightarrow> string list" where
  \<comment> \<open>first argument: the current line so far, reversed\<close>
  "splitlines_from cur [] = (if cur = [] then [] else [rev cur])"
| "splitlines_from cur (c # cs) =
     (if c = CHR 0x0D then
        (case cs of
           d # ds \<Rightarrow> if d = CHR 0x0A then rev cur # splitlines_from [] ds
                     else rev cur # splitlines_from [] cs
         | [] \<Rightarrow> rev cur # splitlines_from [] cs)
      else if is_linebreak c then rev cur # splitlines_from [] cs
      else splitlines_from (c # cur) cs)"

definition splitlines :: "string \<Rightarrow> string list" where
  \<comment> \<open>\<open>s.splitlines()\<close>: CR LF is one boundary, no empty last line after a final boundary\<close>
  "splitlines s = splitlines_from [] s"

fun re_split_ws :: "string \<Rightarrow> string \<Rightarrow> string list" where
  \<comment> \<open>\<open>re.split(r"\s+", s)\<close>; first argument: the current piece so far, reversed\<close>
  "re_split_ws cur [] = [rev cur]"
| "re_split_ws cur (c # cs) =
     (if is_space c then
        (case cs of
           d # ds \<Rightarrow> if is_space d then re_split_ws cur cs else rev cur # re_split_ws [] cs
         | [] \<Rightarrow> rev cur # re_split_ws [] cs)
      else re_split_ws (c # cur) cs)"

definition join_lines :: "string list \<Rightarrow> string" where
  \<comment> \<open>\<open>"\n".join(texts)\<close>\<close>
  "join_lines texts = concat (case texts of [] \<Rightarrow> [] | t # ts \<Rightarrow> t # map (\<lambda>u. CHR 0x0A # u) ts)"

definition digit_val :: "char \<Rightarrow> nat" where
  "digit_val c = of_char c - 48"

definition digits_val :: "string \<Rightarrow> nat" where
  "digits_val ds = foldl (\<lambda>a c. 10 * a + digit_val c) 0 ds"

section \<open>Regular expressions of the module\<close>

text \<open>
  \<open>NUM_RE = ^[+-]?\d[\d,]*\.?\d*$\<close>, used with \<open>match\<close>. Each greedy step is taken to
  its longest extent: giving characters back never helps, because what \<open>[\d,]*\<close> gives back
  are digits and commas, which \<open>\.?\<close> cannot take and after which \<open>\d*$\<close> succeeds only
  when the longest extent succeeds too. Without the MULTILINE flag \<open>$\<close> holds at the end
  of the string and before a final line feed.
\<close>

definition opt_sign :: "string \<Rightarrow> string" where
  \<comment> \<open>the input after \<open>[+-]?\<close>\<close>
  "opt_sign t = (case t of [] \<Rightarrow> [] | c # r \<Rightarrow> if c = CHR ''+'' \<or> c = CHR ''-'' then r else t)"

definition opt_dot :: "string \<Rightarrow> string" where
  \<comment> \<open>the input after \<open>\.?\<close>\<close>
  "opt_dot t = (case t of [] \<Rightarrow> [] | c # r \<Rightarrow> if c = CHR ''.'' then r else t)"

definition at_dollar :: "string \<Rightarrow> bool" where
  "at_dollar r = (r = [] \<or> r = [CHR 0x0A])"

definition NUM_RE_match :: "string \<Rightarrow> bool" where
  "NUM_RE_match t =
     (case opt_sign t of
        [] \<Rightarrow> False
      | d # r \<Rightarrow> is_digit d \<and>
          at_dollar (dropWhile is_digit (opt_dot (dropWhile (\<lambda>c. is_digit c \<or> c = CHR '','') r))))"

text \<open>
  \<open>MONTH_DATE_RE = \b(January|...|December)\s+\d{1,2},\s+\d{4}\b\<close>, used with \<open>search\<close>.
  The alternatives are tried in order; \<open>\s+\<close> takes the whole run of white space (the next
  item is a digit); \<open>\d{1,2}\<close> tries two digits, then one.
\<close>

definition month_names :: "string list" where
  "month_names = [''January'', ''February'', ''March'', ''April'', ''May'', ''June'', ''July'',
                  ''August'', ''September'', ''October'', ''November'', ''December'']"

definition word_boundary :: "char option \<Rightarrow> char option \<Rightarrow> bool" where
  \<comment> \<open>\<open>\b\<close> between the character before and the character after; None is an end of the text\<close>
  "word_boundary p n =
     ((case p of None \<Rightarrow> False | Some c \<Rightarrow> is_word c) \<noteq> (case n of None \<Rightarrow> False | Some c \<Rightarrow> is_word c))"

definition next_char :: "string \<Rightarrow> char option" where
  "next_char s = (case s of [] \<Rightarrow> None | c # _ \<Rightarrow> Some c)"

fun match_day :: "string \<Rightarrow> (string \<times> string) option" where
  \<comment> \<open>\<open>\d{1,2},\<close>: the text matched and the rest\<close>
  "match_day (d1 # d2 # c # r) =
     (if is_digit d1 \<and> is_digit d2 \<and> c = CHR '','' then Some ([d1, d2, c], r)
      else if is_digit d1 \<and> d2 = CHR '','' then Some ([d1, d2], c # r)
      else None)"
| "match_day [d1, c] = (if is_digit d1 \<and> c = CHR '','' then Some ([d1, c], []) else None)"
| "match_day _ = None"

definition match_after_month :: "string \<Rightarrow> string option" where
  \<comment> \<open>\<open>\s+\d{1,2},\s+\d{4}\b\<close> at the start of the input: the text matched\<close>
  "match_after_month s =
     (let ws1 = takeWhile is_space s in
      if ws1 = [] then None
      else case match_day (dropWhile is_space s) of
        None \<Rightarrow> None
      | Some (day, r2) \<Rightarrow>
          let ws2 = takeWhile is_space r2; r3 = dropWhile is_space r2; y = take 4 r3 in
          if ws2 \<noteq> [] \<and> length y = 4 \<and> list_all is_digit y
             \<and> word_boundary (Some (last y)) (next_char (drop 4 r3))
          then Some (ws1 @ day @ ws2 @ y)
          else None)"

fun first_some :: "('a \<Rightarrow> 'b option) \<Rightarrow> 'a list \<Rightarrow> 'b option" where
  "first_some f [] = None"
| "first_some f (x # xs) = (case f x of Some y \<Rightarrow> Some y | None \<Rightarrow> first_some f xs)"

definition match_month_date_at :: "char option \<Rightarrow> string \<Rightarrow> string option" where
  \<comment> \<open>a match of MONTH_DATE_RE starting here, after the character \<open>prev\<close>\<close>
  "match_month_date_at prev s =
     (if word_boundary prev (next_char s) then
        first_some (\<lambda>m. if take (length m) s = m
                         then map_option (\<lambda>t. m @ t) (match_after_month (drop (length m) s))
                         else None) month_names
      else None)"

fun MONTH_DATE_RE_search :: "char option \<Rightarrow> string \<Rightarrow> string option" where
  \<comment> \<open>the leftmost match from here on: \<open>m.group(0)\<close>\<close>
  "MONTH_DATE_RE_search prev [] = None"
| "MONTH_DATE_RE_search prev (c # cs) =
     (case match_month_date_at prev (c # cs) of
        Some m \<Rightarrow> Some m
      | None \<Rightarrow> MONTH_DATE_RE_search (Some c) cs)"

section \<open>The parser\<close>

text \<open>
  \<open>float(s)\<close> on the decimal notation that NUM_RE lets through: white space stripped, a
  sign, digits with at most one point and at least one digit. The value is kept as the
  exact decimal (Python rounds it to the nearest double). None is ValueError; the notations
  of \<open>float\<close> that contain a letter or an underscore are not modelled.
\<close>

definition py_float :: "string \<Rightarrow> rat option" where
  "py_float s =
     (let t = strip s;
          neg = (t \<noteq> [] \<and> hd t = CHR ''-'');
          u = opt_sign t;
          ip = takeWhile is_digit u;
          fr = opt_dot (dropWhile is_digit u)
      in if list_all is_digit fr \<and> (ip \<noteq> [] \<or> fr \<noteq> [])
         then Some ((if neg then - 1 else 1) * (of_nat (digits_val (ip @ fr)) / 10 ^ length fr))
         else None)"

record Quote =
  symbol :: string
  last_price :: "rat option"
  as_at :: string
  source :: string

type_synonym quotes = "(string \<times> Quote) list"
  \<comment> \<open>a \<open>Dict[str, Quote]\<close> in insertion order\<close>

definition has_key :: "string \<Rightarrow> quotes \<Rightarrow> bool" where
  \<comment> \<open>\<open>k in d\<close>\<close>
  "has_key k d = (map_of d k \<noteq> None)"

definition parse_sheet_date :: "string \<Rightarrow> string" where
  "parse_sheet_date text = (case MONTH_DATE_RE_search None text of Some m \<Rightarrow> m | None \<Rightarrow> [])"

definition norm_sym :: "string \<Rightarrow> string" where
  "norm_sym tok = rstrip_chars ''.,;'' (upper (strip tok))"

fun scan_later :: "string list \<Rightarrow> quotes \<Rightarrow> (nat \<times> string) list \<Rightarrow> (string \<times> nat) option" where
  \<comment> \<open>the inner \<open>for i, t in enumerate(toks[1:], start=1)\<close> loop: (sym0, idx0) when found\<close>
  "scan_later want out [] = None"
| "scan_later want out ((i, t) # its) =
     (let sym = norm_sym t in
      if sym \<in> set want \<and> \<not> has_key sym out then Some (sym, i)
      else scan_later want out its)"

fun find_anchor :: "string list \<Rightarrow> quotes \<Rightarrow> string list \<Rightarrow> (string \<times> nat) option" where
  \<comment> \<open>lines 134 to 148; None is the \<open>continue\<close> of line 148. \<open>toks\<close> is not empty there.\<close>
  "find_anchor want out [] = None"
| "find_anchor want out (t0 # ts) =
     (let sym0 = norm_sym t0 in
      if sym0 \<notin> set want \<or> has_key sym0 out then scan_later want out (enumerate 1 ts)
      else Some (sym0, 0))"

definition f :: "string list \<Rightarrow> nat \<Rightarrow> rat option" where
  \<comment> \<open>the local function \<open>f\<close> of parse_quotes, over its free variable \<open>nums\<close>\<close>
  "f nums i = (if i \<ge> length nums then None else py_float (filter (\<lambda>c. c \<noteq> CHR '','') (nums ! i)))"

definition line_tokens :: "string \<Rightarrow> string list" where
  \<comment> \<open>line 129\<close>
  "line_tokens line = filter (\<lambda>t. t \<noteq> []) (re_split_ws [] (strip line))"

definition line_price :: "string list \<Rightarrow> nat \<Rightarrow> rat option" where
  \<comment> \<open>lines 152 to 167\<close>
  "line_price toks idx0 =
     (let nums = filter NUM_RE_match (drop (idx0 + 1) toks);
          last_traded = f nums 0;
          close = f nums 1
      in (if close \<noteq> None then close else last_traded))"

fun parse_lines :: "string list \<Rightarrow> string \<Rightarrow> string list \<Rightarrow> quotes \<Rightarrow> quotes" where
  \<comment> \<open>the \<open>for line in full_text.splitlines()\<close> loop; \<open>want\<close> is kept as the list \<open>symbols\<close>,
      so \<open>len(want)\<close> is the number of its distinct members\<close>
  "parse_lines want sheet [] out = out"
| "parse_lines want sheet (line # rest) out =
     (if strip line = [] then parse_lines want sheet rest out
      else let toks = line_tokens line in
        if toks = [] then parse_lines want sheet rest out
        else case find_anchor want out toks of
          None \<Rightarrow> parse_lines want sheet rest out
        | Some (sym0, idx0) \<Rightarrow>
            let price = line_price toks idx0;
                out' = AList.update sym0
                         \<lparr>symbol = sym0, last_price = price, as_at = sheet, source = ''JSE_DAILY_PDF''\<rparr> out
            in if length out' = length (remdups want) then out'
               else parse_lines want sheet rest out')"

definition parse_text :: "string list \<Rightarrow> string list \<Rightarrow> quotes \<times> string" where
  \<comment> \<open>parse_quotes from line 122 on, over the page texts\<close>
  "parse_text texts symbols =
     (let full_text = join_lines texts;
          sheet = parse_sheet_date full_text
      in (parse_lines symbols sheet (splitlines full_text) [], sheet))"

section \<open>The orchestrator\<close>

datatype exn = Exn string string
  \<comment> \<open>an exception: \<open>type(e).__name__\<close> and \<open>str(e)\<close>\<close>

definition parse_quotes ::
    "('b \<Rightarrow> exn + string option list) \<Rightarrow> 'b \<Rightarrow> string list \<Rightarrow> exn + (quotes \<times> string)" where
  \<comment> \<open>\<open>pdf_pages\<close> stands for pdfplumber: the \<open>extract_text()\<close> of each page (None or a
      text), or the exception raised on the way\<close>
  "parse_quotes pdf_pages pdf_bytes symbols =
     (case pdf_pages pdf_bytes of
        Inl e \<Rightarrow> Inl e
      | Inr pages \<Rightarrow> Inr (parse_text (map (\<lambda>p. case p of None \<Rightarrow> [] | Some t \<Rightarrow> t) pages) symbols))"

text \<open>
  The local variables of \<open>main\<close> that the loops update. \<open>combined\<close> and \<open>got_any\<close> are set
  anew for each date.
\<close>

record vars =
  errors :: "string list"
  best_quotes :: quotes
  used_date :: string
  used_as_at :: string
  combined :: quotes
  got_any :: bool

fun digits_of :: "nat \<Rightarrow> string" where
  "digits_of n = (if n < 10 then [char_of (48 + n)] else digits_of (n div 10) @ [char_of (48 + n mod 10)])"

declare digits_of.simps [simp del]

definition py_str_int :: "int \<Rightarrow> string" where
  \<comment> \<open>\<open>str(i)\<close>\<close>
  "py_str_int i = (if i < 0 then CHR ''-'' # digits_of (nat (- i)) else digits_of (nat i))"

definition error_line :: "string \<Rightarrow> int \<Rightarrow> exn \<Rightarrow> string" where
  \<comment> \<open>line 232\<close>
  "error_line date_iso mid e =
     (case e of Exn name msg \<Rightarrow> date_iso @ '' market '' @ py_str_int mid @ '': '' @ name @ '': '' @ msg)"

fun merge_parsed :: "quotes \<Rightarrow> quotes \<Rightarrow> quotes" where
  \<comment> \<open>lines 224 to 226: \<open>combined\<close>, then \<open>parsed.items()\<close>\<close>
  "merge_parsed comb [] = comb"
| "merge_parsed comb ((k, v) # kvs) =
     merge_parsed (if \<not> has_key k comb then AList.update k v comb else comb) kvs"

definition after_parse :: "string list \<Rightarrow> quotes \<times> string \<Rightarrow> vars \<Rightarrow> vars" where
  \<comment> \<open>lines 220 to 226\<close>
  "after_parse symbols r st =
     (case r of (parsed, sheet) \<Rightarrow>
        if parsed \<noteq> [] then
          st\<lparr>got_any := True,
             used_as_at := (if sheet \<noteq> [] then sheet else used_as_at st),
             combined := merge_parsed (combined st) parsed\<rparr>
        else st)"

fun market_loop ::
    "(string \<Rightarrow> int \<Rightarrow> exn + 'b) \<Rightarrow> ('b \<Rightarrow> exn + string option list) \<Rightarrow> string list \<Rightarrow> string
      \<Rightarrow> int list \<Rightarrow> vars \<Rightarrow> vars" where
  \<comment> \<open>the \<open>for mid in market_ids\<close> loop, lines 216 to 232\<close>
  "market_loop fetch_pdf pdf_pages symbols date_iso [] st = st"
| "market_loop fetch_pdf pdf_pages symbols date_iso (mid # mids) st =
     (case fetch_pdf date_iso mid of
        Inl e \<Rightarrow> market_loop fetch_pdf pdf_pages symbols date_iso mids
                  (st\<lparr>errors := errors st @ [error_line date_iso mid e]\<rparr>)
      | Inr pdf_bytes \<Rightarrow>
          (case parse_quotes pdf_pages pdf_bytes symbols of
             Inl e \<Rightarrow> market_loop fetch_pdf pdf_pages symbols date_iso mids
                       (st\<lparr>errors := errors st @ [error_line date_iso mid e]\<rparr>)
           | Inr r \<Rightarrow>
               let st1 = after_parse symbols r st in
               if length (combined st1) = length symbols
               then st1\<lparr>best_quotes := combined st1, used_date := date_iso\<rparr>
               else market_loop fetch_pdf pdf_pages symbols date_iso mids st1))"

fun date_loop ::
    "(string \<Rightarrow> int \<Rightarrow> exn + 'b) \<Rightarrow> ('b \<Rightarrow> exn + string option list) \<Rightarrow> string list \<Rightarrow> int list
      \<Rightarrow> string list \<Rightarrow> vars \<Rightarrow> vars" where
  \<comment> \<open>the \<open>for date_iso in ...\<close> loop, lines 212 to 239\<close>
  "date_loop fetch_pdf pdf_pages symbols market_ids [] st = st"
| "date_loop fetch_pdf pdf_pages symbols market_ids (date_iso # older) st =
     (let st1 = market_loop fetch_pdf pdf_pages symbols date_iso market_ids
                  (st\<lparr>combined := [], got_any := False\<rparr>)
      in if best_quotes st1 \<noteq> [] then st1
         else if got_any st1 \<and> combined st1 \<noteq> []
         then st1\<lparr>best_quotes := combined st1, used_date := date_iso\<rparr>
         else date_loop fetch_pdf pdf_pages symbols market_ids older st1)"

section \<open>Configuration, output and \<open>main\<close>\<close>

definition read_watchlist :: "string option \<Rightarrow> string list" where
  \<comment> \<open>the argument is the decoded text of the file, None when the path does not exist\<close>
  "read_watchlist file =
     (case file of
        None \<Rightarrow> []
      | Some text \<Rightarrow>
          sort (remdups (map upper
            (filter (\<lambda>s. \<not> (s = [] \<or> take 1 s = ''#'')) (map strip (splitlines text))))))"

fun split_on :: "char \<Rightarrow> string \<Rightarrow> string \<Rightarrow> string list" where
  \<comment> \<open>\<open>s.split(sep)\<close> for a one-character separator; second argument: the piece so far, reversed\<close>
  "split_on sep cur [] = [rev cur]"
| "split_on sep cur (c # cs) =
     (if c = sep then rev cur # split_on sep [] cs else split_on sep (c # cur) cs)"

fun underscores_ok :: "string \<Rightarrow> bool" where
  \<comment> \<open>digits, with single underscores between digits only\<close>
  "underscores_ok [] = False"
| "underscores_ok [c] = is_digit c"
| "underscores_ok (c # d # r) =
     (is_digit c \<and> (if d = CHR ''_'' then underscores_ok r else underscores_ok (d # r)))"

definition py_int :: "string \<Rightarrow> int option" where
  \<comment> \<open>\<open>int(s)\<close>; None is ValueError. The limit on the number of digits of recent Python
      versions is not modelled.\<close>
  "py_int s =
     (let t = strip s; u = opt_sign t in
      if underscores_ok u
      then Some ((if t \<noteq> [] \<and> hd t = CHR ''-'' then - 1 else 1)
                  * int (digits_val (filter (\<lambda>c. c \<noteq> CHR ''_'') u)))
      else None)"

definition getenv :: "string option \<Rightarrow> string \<Rightarrow> string" where
  \<comment> \<open>\<open>os.getenv(name, default)\<close>, on the value of the variable (None when unset)\<close>
  "getenv v d = (case v of None \<Rightarrow> d | Some s \<Rightarrow> s)"

fun parse_market_parts :: "string list \<Rightarrow> int list" where
  \<comment> \<open>lines 194 to 201\<close>
  "parse_market_parts [] = []"
| "parse_market_parts (part # parts) =
     (if strip part = [] then parse_market_parts parts
      else case py_int (strip part) of
        Some i \<Rightarrow> i # parse_market_parts parts
      | None \<Rightarrow> parse_market_parts parts)"

definition market_ids_of :: "string option \<Rightarrow> int list" where
  \<comment> \<open>lines 193 to 203\<close>
  "market_ids_of v =
     (let market_ids = parse_market_parts (split_on CHR '','' [] (getenv v ''33,31,32,34,35,36''))
      in if market_ids = [] then [31] else market_ids)"

definition latest_trading_date_iso :: "(int \<Rightarrow> string) \<Rightarrow> int \<Rightarrow> int \<Rightarrow> exn + string list" where
  \<comment> \<open>\<open>today\<close> is the proleptic ordinal of the current date and \<open>isoformat\<close> the text of the
      date with an ordinal; a date before ordinal 1 is OverflowError\<close>
  "latest_trading_date_iso isoformat today lookback_days =
     (if lookback_days > today then Inl (Exn ''OverflowError'' ''date value out of range'')
      else Inr (map (\<lambda>d. isoformat (today - int d)) [0 ..< nat lookback_days]))"

record row =
  r_symbol :: string
  r_last_price :: "rat option"
  r_as_at :: string
  r_source :: string

definition make_row :: "vars \<Rightarrow> string \<Rightarrow> row" where
  \<comment> \<open>lines 243 to 249; an empty \<open>last_price\<close> cell is None\<close>
  "make_row st sy =
     (let q = map_of (best_quotes st) sy in
      \<lparr>r_symbol = sy,
       r_last_price = (case q of None \<Rightarrow> None | Some q' \<Rightarrow> last_price q'),
       r_as_at = (if (case q of None \<Rightarrow> False | Some q' \<Rightarrow> as_at q' \<noteq> []) then as_at (the q)
                  else if used_as_at st \<noteq> [] then used_as_at st else used_date st),
       r_source = ''JSE_DAILY_PDF''\<rparr>)"

text \<open>
  What a run of the process depends on: the text of the watchlist file (None when the path
  does not exist), the environment variables (None when unset), the current date as a
  proleptic ordinal with the library's \<open>isoformat\<close>, the outcome of \<open>fetch_pdf\<close> for a date
  and a market (the bytes, or the exception it raises) and the page texts that pdfplumber
  extracts from the bytes (or its exception).
\<close>

record 'b world =
  watchlist_file :: "string option"
  JSE_MARKETS :: "string option"
  JSE_LOOKBACK_DAYS :: "string option"
  DEBUG :: "string option"
  today :: int
  isoformat :: "int \<Rightarrow> string"
  fetch_pdf :: "string \<Rightarrow> int \<Rightarrow> exn + 'b"
  pdf_pages :: "'b \<Rightarrow> exn + string option list"

datatype outcome =
    Returned int "row list option" "string list"
  | Uncaught exn
  \<comment> \<open>\<open>Returned\<close>: the return value of \<open>main\<close>, the rows written to prices.csv (None when the
      file is not written) and the lines printed on stderr; \<open>Uncaught\<close>: an exception leaves
      \<open>main\<close>. The line printed on stdout is left out.\<close>

definition init_vars :: vars where
  \<comment> \<open>lines 207 to 210\<close>
  "init_vars = \<lparr>errors = [], best_quotes = [], used_date = [], used_as_at = [],
                combined = [], got_any = False\<rparr>"

definition debug_lines :: "string option \<Rightarrow> string list \<Rightarrow> string list" where
  \<comment> \<open>lines 254 to 257\<close>
  "debug_lines dbg errs =
     (if getenv dbg ''0'' = ''1'' \<and> errs \<noteq> []
      then ''Errors (first 10):'' # map (\<lambda>e. '' - '' @ e) (take 10 errs)
      else [])"

definition retrieve :: "'b world \<Rightarrow> string list \<Rightarrow> int list \<Rightarrow> string list \<Rightarrow> vars" where
  \<comment> \<open>lines 207 to 239\<close>
  "retrieve w symbols market_ids dates =
     date_loop (fetch_pdf w) (pdf_pages w) symbols market_ids dates init_vars"

definition main :: "'b world \<Rightarrow> outcome" where
  \<comment> \<open>\<open>int(...)\<close> of line 205 and \<open>latest_trading_date_iso\<close> of line 212 are called outside
      any handler: their exception leaves \<open>main\<close> (the interpreter then exits with status
      1). The text of the ValueError is abridged.\<close>
  "main w =
     (let symbols = read_watchlist (watchlist_file w) in
      if symbols = [] then Returned 2 None [''No symbols in watchlist.txt'']
      else
        let market_ids = market_ids_of (JSE_MARKETS w) in
        case py_int (getenv (JSE_LOOKBACK_DAYS w) ''10'') of
          None \<Rightarrow> Uncaught (Exn ''ValueError'' ''invalid literal for int() with base 10'')
        | Some lookback \<Rightarrow>
            (case latest_trading_date_iso (isoformat w) (today w) lookback of
               Inl e \<Rightarrow> Uncaught e
             | Inr dates \<Rightarrow>
                 let st = retrieve w symbols market_ids dates in
                 Returned 0 (Some (map (make_row st) symbols)) (debug_lines (DEBUG w) (errors st))))"


section \<open>Notions used in the statements\<close>

definition wanted_free :: "string list \<Rightarrow> quotes \<Rightarrow> string \<Rightarrow> bool" where
  \<comment> \<open>the token normalises to a wanted symbol that has no entry yet\<close>
  "wanted_free want out t = (norm_sym t \<in> set want \<and> \<not> has_key (norm_sym t) out)"

definition month_date_shape :: "string \<Rightarrow> bool" where
  \<comment> \<open>a full month name, white space, a day of one or two digits, a comma, white space, a
      year of four digits\<close>
  "month_date_shape l =
     (\<exists>m ws1 dd ws2 y. l = m @ ws1 @ dd @ '','' @ ws2 @ y
        \<and> m \<in> set month_names
        \<and> ws1 \<noteq> [] \<and> list_all is_space ws1
        \<and> (length dd = 1 \<or> length dd = 2) \<and> list_all is_digit dd
        \<and> ws2 \<noteq> [] \<and> list_all is_space ws2
        \<and> length y = 4 \<and> list_all is_digit y)"

definition last_char :: "string \<Rightarrow> char option" where
  "last_char s = (if s = [] then None else Some (last s))"

definition month_date_at :: "string \<Rightarrow> string \<Rightarrow> string \<Rightarrow> bool" where
  \<comment> \<open>the text \<open>pre @ l @ post\<close> has a match \<open>l\<close> of the pattern after \<open>pre\<close>, with a word
      boundary on each side\<close>
  "month_date_at pre l post =
     (month_date_shape l
      \<and> word_boundary (last_char pre) (next_char (l @ post))
      \<and> word_boundary (last_char l) (next_char post))"

definition date_combined ::
    "(string \<Rightarrow> int \<Rightarrow> exn + 'b) \<Rightarrow> ('b \<Rightarrow> exn + string option list) \<Rightarrow> string list
      \<Rightarrow> int list \<Rightarrow> string \<Rightarrow> quotes" where
  \<comment> \<open>the per-date combined mapping: \<open>combined\<close> after the market loop of one date\<close>
  "date_combined fetch pages symbols market_ids date_iso =
     combined (market_loop fetch pages symbols date_iso market_ids init_vars)"

definition unresolved :: "string list \<Rightarrow> quotes \<Rightarrow> string list" where
  \<comment> \<open>the watchlist symbols with no entry in a mapping\<close>
  "unresolved symbols comb = filter (\<lambda>s. \<not> has_key s comb) symbols"

text \<open>
  A run used to instantiate the statements below: the watchlist AAA, BBB, two markets and
  three dates. The newest date has one sheet, with a date label and no wanted symbol; the
  middle date has a sheet for each market; the oldest date has one sheet. A sheet is one
  page of text, standing for its own bytes.
\<close>

definition ex_symbols :: "string list" where
  "ex_symbols = [''AAA'', ''BBB'']"

definition ex_fetch :: "string \<Rightarrow> int \<Rightarrow> exn + string" where
  "ex_fetch d m =
     (if d = ''2024-03-05'' \<and> m = 2 then Inr ''Sheet for March 5, 2024''
      else if d = ''2024-03-04'' \<and> m = 1 then Inr ''AAA 1.00''
      else if d = ''2024-03-04'' \<and> m = 2 then Inr ''AAA BBB 5.00''
      else if d = ''2024-03-03'' \<and> m = 1 then Inr ''BBB 9.00''
      else Inl (Exn ''RuntimeError'' ''HTTP 404 fetching quote page''))"

definition ex_pages :: "string \<Rightarrow> exn + string option list" where
  "ex_pages b = Inr [Some b]"

definition ex_quote :: "string \<Rightarrow> rat \<Rightarrow> Quote" where
  "ex_quote s p = \<lparr>symbol = s, last_price = Some p, as_at = [], source = ''JSE_DAILY_PDF''\<rparr>"

definition ex_world :: "string world" where
  \<comment> \<open>the run above as a process: today is the newest of the three dates\<close>
  "ex_world =
     \<lparr>watchlist_file = Some ''bbb\<newline># watchlist\<newline>AAA\<newline>aaa'',
      JSE_MARKETS = Some ''1,2'', JSE_LOOKBACK_DAYS = Some ''3'', DEBUG = None,
      today = 3,
      isoformat = (\<lambda>i. if i = 3 then ''2024-03-05'' else if i = 2 then ''2024-03-04''
                          else ''2024-03-03''),
      fetch_pdf = ex_fetch, pdf_pages = ex_pages\<rparr>"

definition empty_row :: "string \<Rightarrow> row" where
  \<comment> \<open>the record of a symbol with no price and no date\<close>
  "empty_row s = \<lparr>r_symbol = s, r_last_price = None, r_as_at = [], r_source = ''JSE_DAILY_PDF''\<rparr>"

definition ex_titled :: "string \<Rightarrow> exn + string option list" where
  \<comment> \<open>a sheet with a title page before its one page of text\<close>
  "ex_titled b = Inr [Some ''Daily Quote Sheet March 4, 2024'', Some b]"

text \<open>
  The market loop as the specification words it, to compare with \<open>market_loop\<close>: the parser
  is run against the symbols still unresolved in the combined mapping. Nothing else differs.
\<close>

fun spec_market_loop ::
    "(string \<Rightarrow> int \<Rightarrow> exn + 'b) \<Rightarrow> ('b \<Rightarrow> exn + string option list) \<Rightarrow> string list \<Rightarrow> string
      \<Rightarrow> int list \<Rightarrow> vars \<Rightarrow> vars" where
  "spec_market_loop fetch pages symbols date_iso [] st = st"
| "spec_market_loop fetch pages symbols date_iso (mid # mids) st =
     (case fetch date_iso mid of
        Inl e \<Rightarrow> spec_market_loop fetch pages symbols date_iso mids
                  (st\<lparr>errors := errors st @ [error_line date_iso mid e]\<rparr>)
      | Inr pdf_bytes \<Rightarrow>
          (case parse_quotes pages pdf_bytes (unresolved symbols (combined st)) of
             Inl e \<Rightarrow> spec_market_loop fetch pages symbols date_iso mids
                       (st\<lparr>errors := errors st @ [error_line date_iso mid e]\<rparr>)
           | Inr r \<Rightarrow>
               let st1 = after_parse symbols r st in
               if length (combined st1) = length symbols
               then st1\<lparr>best_quotes := combined st1, used_date := date_iso\<rparr>
               else spec_market_loop fetch pages symbols date_iso mids st1))"

section \<open>The symbol anchor of a line\<close>

lemma has_key_update: "has_key k (AList.update k' v d) = (k = k' \<or> has_key k d)"
  by (simp add: has_key_def update_conv')

lemma scan_later_eq:
  "scan_later want out (enumerate n ts) =
     (let k = length (takeWhile (\<lambda>t. \<not> wanted_free want out t) ts)
      in if k < length ts then Some (norm_sym (ts ! k), n + k) else None)"
  by (induction ts arbitrary: n) (auto simp: Let_def wanted_free_def)

lemma find_anchor_eq:
  "find_anchor want out toks =
     (let k = length (takeWhile (\<lambda>t. \<not> wanted_free want out t) toks)
      in if k < length toks then Some (norm_sym (toks ! k), k) else None)"
proof (cases toks)
  case Nil
  then show ?thesis by simp
next
  case (Cons t0 ts)
  then show ?thesis
    by (auto simp: Let_def scan_later_eq wanted_free_def)
qed

lemma first_index_iff:
  "(length (takeWhile (\<lambda>t. \<not> P t) xs) = i \<and> i < length xs)
     \<longleftrightarrow> (i < length xs \<and> P (xs ! i) \<and> (\<forall>j<i. \<not> P (xs ! j)))"
proof (induction xs arbitrary: i)
  case Nil
  then show ?case by simp
next
  case (Cons x xs)
  show ?case
  proof (cases i)
    case 0
    then show ?thesis by auto
  next
    case (Suc i')
    show ?thesis
    proof (cases "P x")
      case True
      then show ?thesis using Suc by auto
    next
      case False
      have "(\<forall>j<Suc i'. \<not> P ((x # xs) ! j)) \<longleftrightarrow> (\<forall>j<i'. \<not> P (xs ! j))"
        using False by (auto simp: less_Suc_eq_0_disj)
      then show ?thesis
        using False Suc Cons.IH [of i'] by simp
    qed
  qed
qed

lemma no_index_iff:
  "(\<not> length (takeWhile (\<lambda>t. \<not> P t) xs) < length xs) \<longleftrightarrow> (\<forall>j<length xs. \<not> P (xs ! j))"
  by (induction xs) (auto simp: less_Suc_eq_0_disj)

lemma find_anchor_Some_iff:
  "find_anchor want out toks = Some (s, i) \<longleftrightarrow>
     i < length toks \<and> s = norm_sym (toks ! i) \<and> wanted_free want out (toks ! i)
     \<and> (\<forall>j<i. \<not> wanted_free want out (toks ! j))"
  using first_index_iff [of "wanted_free want out" toks i]
  by (auto simp: find_anchor_eq Let_def)

lemma find_anchor_None_iff:
  "find_anchor want out toks = None \<longleftrightarrow> (\<forall>j<length toks. \<not> wanted_free want out (toks ! j))"
  using no_index_iff [of "wanted_free want out" toks]
  by (auto simp: find_anchor_eq Let_def)

section \<open>Numeric tokens and their conversion\<close>

lemma digit_not_space: "is_digit c \<Longrightarrow> \<not> is_space c"
  by (auto simp: is_digit_def is_space_def)

lemma strip_body:
  assumes "body \<noteq> []" "\<forall>c\<in>set body. \<not> is_space c" "\<forall>c\<in>set nl. is_space c"
  shows "strip (body @ nl) = body"
proof -
  obtain x xs where b: "body = x # xs" using assms(1) by (cases body) auto
  have 1: "dropWhile is_space (body @ nl) = body @ nl"
    using assms(2) b by simp
  have 2: "dropWhile is_space (rev nl @ rev body) = dropWhile is_space (rev body)"
    by (rule dropWhile_append2) (use assms(3) in auto)
  have 3: "dropWhile is_space (rev body) = rev body"
    using assms(2) by (cases "rev body") (auto simp: dropWhile_eq_Cons_conv)
  show ?thesis
    by (simp add: strip_def 1 2 3)
qed

lemma NUM_RE_shape:
  assumes "NUM_RE_match t"
  shows "\<exists>sg d a fr nl. t = sg @ d # a @ fr @ nl
           \<and> (sg = [] \<or> sg = ''+'' \<or> sg = ''-'') \<and> is_digit d
           \<and> (\<forall>c\<in>set a. is_digit c \<or> c = CHR '','')
           \<and> (fr = [] \<or> (\<exists>b. fr = CHR ''.'' # b \<and> (\<forall>c\<in>set b. is_digit c)))
           \<and> (nl = [] \<or> nl = [CHR 0x0A])"
proof -
  obtain d r where dr: "opt_sign t = d # r" and d: "is_digit d"
    and rest: "at_dollar (dropWhile is_digit (opt_dot (dropWhile (\<lambda>c. is_digit c \<or> c = CHR '','') r)))"
    using assms by (auto simp: NUM_RE_match_def split: list.splits)
  define sg where "sg = take (length t - length (d # r)) t"
  have t: "t = sg @ d # r" and sg: "sg = [] \<or> sg = ''+'' \<or> sg = ''-''"
    using dr by (auto simp: sg_def opt_sign_def split: list.splits if_splits)
  define a where "a = takeWhile (\<lambda>c. is_digit c \<or> c = CHR '','') r"
  define r1 where "r1 = dropWhile (\<lambda>c. is_digit c \<or> c = CHR '','') r"
  have r: "r = a @ r1" by (simp add: a_def r1_def)
  have a: "\<forall>c\<in>set a. is_digit c \<or> c = CHR '',''"
    by (auto simp: a_def dest: set_takeWhileD)
  define b where "b = takeWhile is_digit (opt_dot r1)"
  define nl where "nl = dropWhile is_digit (opt_dot r1)"
  have od: "opt_dot r1 = b @ nl" by (simp add: b_def nl_def)
  have b: "\<forall>c\<in>set b. is_digit c" by (auto simp: b_def dest: set_takeWhileD)
  have nl: "nl = [] \<or> nl = [CHR 0x0A]"
    using rest by (simp add: nl_def r1_def at_dollar_def)
  have r1hd: "r1 \<noteq> [] \<Longrightarrow> \<not> (is_digit (hd r1) \<or> hd r1 = CHR '','')"
    unfolding r1_def by (rule hd_dropWhile)
  have "\<exists>fr. r1 = fr @ nl \<and> (fr = [] \<or> (\<exists>b. fr = CHR ''.'' # b \<and> (\<forall>c\<in>set b. is_digit c)))"
  proof (cases "r1 \<noteq> [] \<and> hd r1 = CHR ''.''")
    case True
    then have "r1 = CHR ''.'' # b @ nl"
      using od by (cases r1) (auto simp: opt_dot_def)
    then show ?thesis using b by auto
  next
    case False
    then have e: "opt_dot r1 = r1"
      by (cases r1) (auto simp: opt_dot_def)
    have "b = []"
    proof (cases r1)
      case Nil
      then show ?thesis by (simp add: b_def opt_dot_def)
    next
      case (Cons x xs)
      then have "\<not> is_digit x" using r1hd by simp
      then have "takeWhile is_digit r1 = []" using Cons by simp
      then show ?thesis by (simp only: b_def e)
    qed
    then show ?thesis using od e by auto
  qed
  then obtain fr where fr: "r1 = fr @ nl"
    and frp: "fr = [] \<or> (\<exists>b. fr = CHR ''.'' # b \<and> (\<forall>c\<in>set b. is_digit c))"
    by blast
  have "t = sg @ d # a @ fr @ nl"
    using t r fr by simp
  then show ?thesis
    using sg d a frp nl by blast
qed

lemma py_float_shape:
  assumes "is_digit d" "\<forall>c\<in>set a. is_digit c" "\<forall>c\<in>set b. is_digit c"
    "sg = [] \<or> sg = ''+'' \<or> sg = ''-''" "fr = [] \<and> b = [] \<or> fr = CHR ''.'' # b"
    "nl = [] \<or> nl = [CHR 0x0A]"
  shows "py_float (sg @ d # a @ fr @ nl)
           = Some ((if sg = ''-'' then - 1 else 1) * (of_nat (digits_val (d # a @ b)) / 10 ^ length b))"
proof -
  have sp: "\<forall>c\<in>set nl. is_space c"
    using assms(6) by (auto simp: is_space_def)
  have punct: "\<not> is_space CHR ''+''" "\<not> is_space CHR ''-''" "\<not> is_space CHR ''.''"
    by (simp_all add: is_space_def)
  have nsg: "\<forall>c\<in>set sg. \<not> is_space c"
    using assms(4) punct by auto
  have nfr: "\<forall>c\<in>set fr. \<not> is_space c"
    using assms(3,5) punct by (auto simp: digit_not_space)
  have nsp: "\<forall>c\<in>set (sg @ d # a @ fr). \<not> is_space c"
    using nsg nfr assms(1,2) by (auto simp: digit_not_space)
  have "strip ((sg @ d # a @ fr) @ nl) = sg @ d # a @ fr"
    by (rule strip_body) (use sp nsp in simp_all)
  then have st: "strip (sg @ d # a @ fr @ nl) = sg @ d # a @ fr"
    by simp
  have dsg: "d \<noteq> CHR ''+''" "d \<noteq> CHR ''-''"
    using assms(1) by (auto simp: is_digit_def)
  have os: "opt_sign (sg @ d # a @ fr) = d # a @ fr"
    using assms(4) dsg by (auto simp: opt_sign_def)
  have neg: "(sg @ d # a @ fr \<noteq> [] \<and> hd (sg @ d # a @ fr) = CHR ''-'') = (sg = ''-'')"
    using assms(4) dsg by auto
  have ndot: "\<not> is_digit CHR ''.''" by (simp add: is_digit_def)
  have "takeWhile is_digit ((d # a) @ fr) = (d # a) @ takeWhile is_digit fr"
    by (rule takeWhile_append2) (use assms(1,2) in auto)
  moreover have "takeWhile is_digit fr = []"
    using assms(5) ndot by auto
  ultimately have tw: "takeWhile is_digit (d # a @ fr) = d # a"
    by simp
  have "dropWhile is_digit ((d # a) @ fr) = dropWhile is_digit fr"
    by (rule dropWhile_append2) (use assms(1,2) in auto)
  moreover have "dropWhile is_digit fr = fr"
    using assms(5) ndot by auto
  ultimately have dw: "dropWhile is_digit (d # a @ fr) = fr"
    by simp
  have od: "opt_dot fr = b"
    using assms(5) by (auto simp: opt_dot_def)
  have la: "list_all is_digit b"
    using assms(3) by (simp add: list_all_iff)
  have "py_float (sg @ d # a @ fr @ nl)
          = (if list_all is_digit b \<and> (d # a \<noteq> [] \<or> b \<noteq> [])
             then Some ((if sg = ''-'' then - 1 else 1) * (of_nat (digits_val ((d # a) @ b)) / 10 ^ length b))
             else None)"
    unfolding py_float_def Let_def st os neg tw dw od ..
  then show ?thesis
    using la by simp
qed

lemma NUM_RE_float:
  assumes "NUM_RE_match t"
  shows "py_float (filter (\<lambda>c. c \<noteq> CHR '','') t) \<noteq> None"
proof -
  obtain sg d a fr nl where t: "t = sg @ d # a @ fr @ nl"
    and sg: "sg = [] \<or> sg = ''+'' \<or> sg = ''-''" and d: "is_digit d"
    and a: "\<forall>c\<in>set a. is_digit c \<or> c = CHR '',''"
    and fr: "fr = [] \<or> (\<exists>b. fr = CHR ''.'' # b \<and> (\<forall>c\<in>set b. is_digit c))"
    and nl: "nl = [] \<or> nl = [CHR 0x0A]"
    using NUM_RE_shape [OF assms] by blast
  define b where "b = tl fr"
  have frb: "fr = [] \<and> b = [] \<or> fr = CHR ''.'' # b" and b: "\<forall>c\<in>set b. is_digit c"
    using fr by (auto simp: b_def)
  let ?nc = "\<lambda>c. c \<noteq> CHR '',''"
  have dc: "\<And>c. is_digit c \<Longrightarrow> c \<noteq> CHR '',''" by (auto simp: is_digit_def)
  have f1: "filter ?nc sg = sg" using sg by auto
  have "filter ?nc b = b"
    by (rule filter_True) (use b dc in blast)
  then have f2: "filter ?nc fr = fr"
    using frb by (cases "fr = []") simp_all
  have f3: "filter ?nc nl = nl" using nl by auto
  have f4: "filter ?nc [d] = [d]" using d dc by auto
  have "filter ?nc t = filter ?nc sg @ filter ?nc [d] @ filter ?nc a @ filter ?nc fr @ filter ?nc nl"
    unfolding t by simp
  then have f: "filter ?nc t = sg @ d # filter ?nc a @ fr @ nl"
    unfolding f1 f2 f3 f4 by simp
  have a': "\<forall>c\<in>set (filter ?nc a). is_digit c" using a by auto
  show ?thesis
    unfolding f using py_float_shape [OF d a' b sg frb nl] by simp
qed

section \<open>The line loop of the parser\<close>


lemma line_tokens_blank: "strip line = [] \<Longrightarrow> line_tokens line = []"
  by (simp add: line_tokens_def)

lemma find_anchor_fresh:
  "find_anchor want out toks = Some (s, i) \<Longrightarrow> s \<in> set want \<and> \<not> has_key s out"
  by (auto simp: find_anchor_Some_iff wanted_free_def)

lemma parse_lines_keeps:
  "map_of out k = Some q \<Longrightarrow> map_of (parse_lines want sheet lines out) k = Some q"
proof (induction lines arbitrary: out)
  case Nil
  then show ?case by simp
next
  case (Cons line rest)
  show ?case
  proof (cases "find_anchor want out (line_tokens line)")
    case None
    then show ?thesis
      using Cons by (simp add: Let_def)
  next
    case (Some a)
    obtain s i where a: "a = (s, i)" by (cases a)
    have fresh: "\<not> has_key s out"
      using Some a find_anchor_fresh by blast
    then have ne: "k \<noteq> s"
      using Cons.prems by (auto simp: has_key_def)
    define q' where "q' = \<lparr>symbol = s, last_price = line_price (line_tokens line) i,
                             as_at = sheet, source = ''JSE_DAILY_PDF''\<rparr>"
    have upd: "map_of (AList.update s q' out) k = Some q"
      using ne Cons.prems by (simp add: update_conv')
    have nonempty: "line_tokens line \<noteq> []" "strip line \<noteq> []"
      using Some line_tokens_blank [of line] by auto
    show ?thesis
      using Some a nonempty upd Cons.IH [OF upd]
      by (simp add: Let_def q'_def)
  qed
qed

lemma parse_lines_records:
  assumes "find_anchor want out (line_tokens line) = Some (sym0, idx0)"
  shows "map_of (parse_lines want sheet (line # rest) out) sym0
           = Some \<lparr>symbol = sym0, last_price = line_price (line_tokens line) idx0,
                   as_at = sheet, source = ''JSE_DAILY_PDF''\<rparr>"
proof -
  define q' where "q' = \<lparr>symbol = sym0, last_price = line_price (line_tokens line) idx0,
                           as_at = sheet, source = ''JSE_DAILY_PDF''\<rparr>"
  have nonempty: "line_tokens line \<noteq> []" "strip line \<noteq> []"
    using assms line_tokens_blank [of line] by auto
  have upd: "map_of (AList.update sym0 q' out) sym0 = Some q'"
    by (simp add: update_conv')
  show ?thesis
    using assms nonempty upd parse_lines_keeps [OF upd]
    by (simp add: Let_def q'_def)
qed

lemma parse_lines_skips:
  assumes "find_anchor want out (line_tokens line) = None"
  shows "parse_lines want sheet (line # rest) out = parse_lines want sheet rest out"
  using assms by (simp add: Let_def)

lemma line_price_spec:
  "line_price toks idx0 =
     (let nums = filter NUM_RE_match (drop (idx0 + 1) toks) in
      if 2 \<le> length nums then py_float (filter (\<lambda>c. c \<noteq> CHR '','') (nums ! 1))
      else if 1 \<le> length nums then py_float (filter (\<lambda>c. c \<noteq> CHR '','') (nums ! 0))
      else None)"
proof -
  define nums where "nums = filter NUM_RE_match (drop (idx0 + 1) toks)"
  have fl: "\<And>i. i < length nums \<Longrightarrow> f nums i \<noteq> None"
  proof -
    fix i assume "i < length nums"
    then have "nums ! i \<in> set nums" by simp
    then have "NUM_RE_match (nums ! i)" by (simp add: nums_def)
    then show "f nums i \<noteq> None"
      using \<open>i < length nums\<close> NUM_RE_float by (simp add: f_def)
  qed
  have "line_price toks idx0 = (if f nums 1 \<noteq> None then f nums 1 else f nums 0)"
    by (simp add: line_price_def Let_def nums_def)
  also have "\<dots> = (if 2 \<le> length nums then py_float (filter (\<lambda>c. c \<noteq> CHR '','') (nums ! 1))
      else if 1 \<le> length nums then py_float (filter (\<lambda>c. c \<noteq> CHR '','') (nums ! 0))
      else None)"
  proof (cases "2 \<le> length nums")
    case True
    then have "f nums 1 \<noteq> None" using fl [of 1] by simp
    then show ?thesis using True by (simp add: f_def)
  next
    case False
    then have "f nums 1 = None" by (simp add: f_def)
    then show ?thesis using False by (cases nums) (simp_all add: f_def)
  qed
  finally show ?thesis
    by (simp add: Let_def nums_def)
qed

section \<open>Anchor and price of a line\<close>


lemmas py_float_eval = py_float_def strip_def is_space_def opt_sign_def is_digit_def opt_dot_def
  digits_val_def digit_val_def Let_def

lemma parse_text_one_line:
  assumes "splitlines (join_lines texts) = [line]"
    and "find_anchor symbols [] (line_tokens line) = Some (s, i)"
  shows "map_of (fst (parse_text texts symbols)) s
           = Some \<lparr>symbol = s, last_price = line_price (line_tokens line) i,
                   as_at = parse_sheet_date (join_lines texts), source = ''JSE_DAILY_PDF''\<rparr>"
  using assms by (simp add: parse_text_def Let_def parse_lines_records del: parse_lines.simps)

text \<open>
  C5. On a tokenised line the anchor is the normalised first token when it is wanted and
  not yet resolved; otherwise the first token from position 1 on whose normalisation is
  wanted and not yet resolved; when there is none, the line is skipped and the mapping is
  unchanged. For the line \<open>Note AAA 5.00\<close> and the watchlist AAA the anchor is the second
  token and the price recorded is 5.00.
\<close>

theorem anchor_selection:
  "(toks \<noteq> [] \<and> wanted_free want out (toks ! 0)
      \<longrightarrow> find_anchor want out toks = Some (norm_sym (toks ! 0), 0))
   \<and> (toks \<noteq> [] \<and> \<not> wanted_free want out (toks ! 0) \<and> 1 \<le> i \<and> i < length toks
        \<and> wanted_free want out (toks ! i) \<and> (\<forall>j. 1 \<le> j \<and> j < i \<longrightarrow> \<not> wanted_free want out (toks ! j))
      \<longrightarrow> find_anchor want out toks = Some (norm_sym (toks ! i), i))
   \<and> ((\<forall>j<length toks. \<not> wanted_free want out (toks ! j)) \<longrightarrow> find_anchor want out toks = None)
   \<and> (find_anchor want out (line_tokens line) = None
      \<longrightarrow> parse_lines want sheet (line # rest) out = parse_lines want sheet rest out)
   \<and> find_anchor [''AAA''] [] (line_tokens ''Note AAA 5.00'') = Some (''AAA'', 1)
   \<and> map_option last_price (map_of (fst (parse_text [''Note AAA 5.00''] [''AAA''])) ''AAA'')
        = Some (Some 5)"
proof (intro conjI impI)
  assume "toks \<noteq> [] \<and> wanted_free want out (toks ! 0)"
  then show "find_anchor want out toks = Some (norm_sym (toks ! 0), 0)"
    by (simp add: find_anchor_Some_iff)
next
  assume a: "toks \<noteq> [] \<and> \<not> wanted_free want out (toks ! 0) \<and> 1 \<le> i \<and> i < length toks
        \<and> wanted_free want out (toks ! i) \<and> (\<forall>j. 1 \<le> j \<and> j < i \<longrightarrow> \<not> wanted_free want out (toks ! j))"
  have "\<forall>j<i. \<not> wanted_free want out (toks ! j)"
  proof (intro allI impI)
    fix j assume "j < i"
    show "\<not> wanted_free want out (toks ! j)"
      using a \<open>j < i\<close> by (cases j) auto
  qed
  then show "find_anchor want out toks = Some (norm_sym (toks ! i), i)"
    using a by (simp add: find_anchor_Some_iff)
next
  assume "\<forall>j<length toks. \<not> wanted_free want out (toks ! j)"
  then show "find_anchor want out toks = None"
    by (simp add: find_anchor_None_iff)
next
  assume "find_anchor want out (line_tokens line) = None"
  then show "parse_lines want sheet (line # rest) out = parse_lines want sheet rest out"
    by (rule parse_lines_skips)
next
  show "find_anchor [''AAA''] [] (line_tokens ''Note AAA 5.00'') = Some (''AAA'', 1)"
    by code_simp
next
  have l: "splitlines (join_lines [''Note AAA 5.00'']) = [''Note AAA 5.00'']"
    by code_simp
  have a: "find_anchor [''AAA''] [] (line_tokens ''Note AAA 5.00'') = Some (''AAA'', 1)"
    by code_simp
  have n: "filter NUM_RE_match (drop (1 + 1) (line_tokens ''Note AAA 5.00'')) = [''5.00'']"
    by code_simp
  have v: "py_float ''5.00'' = Some 5"
    by (simp add: py_float_eval)
  have "line_price (line_tokens ''Note AAA 5.00'') 1 = Some 5"
    unfolding line_price_spec n using v by simp
  then show "map_option last_price (map_of (fst (parse_text [''Note AAA 5.00''] [''AAA''])) ''AAA'')
        = Some (Some 5)"
    using parse_text_one_line [OF l a] by simp
qed

theorem anchor_selection_witness:
  "[''Note'', ''AAA'', ''5.00''] \<noteq> []
   \<and> \<not> wanted_free [''AAA''] [] ([''Note'', ''AAA'', ''5.00''] ! 0)
   \<and> wanted_free [''AAA''] [] ([''Note'', ''AAA'', ''5.00''] ! 1)
   \<and> find_anchor [''AAA''] [] [''Note'', ''AAA'', ''5.00''] = Some (''AAA'', 1)
   \<and> wanted_free [''AAA''] [] ([''AAA'', ''5.00''] ! 0)
   \<and> find_anchor [''AAA''] [] [''AAA'', ''5.00''] = Some (''AAA'', 0)
   \<and> \<not> wanted_free [''AAA''] [] ([''x''] ! 0)
   \<and> find_anchor [''AAA''] [] (line_tokens ''x'') = None
   \<and> parse_lines [''AAA''] [] [''x''] [] = []"
proof -
  have h0: "\<not> wanted_free [''AAA''] [] ''Note''" by code_simp
  have h1: "wanted_free [''AAA''] [] ''AAA''" by code_simp
  have n1: "norm_sym ''AAA'' = ''AAA''" by code_simp
  have h2: "\<not> wanted_free [''AAA''] [] ''x''" by code_simp
  have lt: "line_tokens ''x'' = [''x'']" by code_simp
  have a: "find_anchor [''AAA''] [] [''Note'', ''AAA'', ''5.00''] = Some (''AAA'', 1)"
    using anchor_selection [of "[''Note'', ''AAA'', ''5.00'']" "[''AAA'']" "[]" 1] h0 h1 n1
    by (simp add: less_Suc_eq_0_disj)
  have b: "find_anchor [''AAA''] [] [''AAA'', ''5.00''] = Some (''AAA'', 0)"
    using anchor_selection [of "[''AAA'', ''5.00'']" "[''AAA'']" "[]"] h1 n1 by simp
  have c: "find_anchor [''AAA''] [] [''x''] = None"
    using anchor_selection [of "[''x'']" "[''AAA'']" "[]"] h2 by simp
  have d: "parse_lines [''AAA''] [] [''x''] [] = []"
    using anchor_selection [of _ "[''AAA'']" "[]" _ "''x''" "[]" "[]"] c lt by simp
  show ?thesis
    using h0 h1 h2 a b c d lt by simp
qed

text \<open>
  C2. On a line with an anchor, the numeric tokens of the rest of the line are collected
  from left to right, the other tokens being skipped; every collected token converts to a
  number; the price recorded for the anchor is the second collected number when there is
  one, else the first when there is one, else none. For the line
  \<open>AAA 10.25 10.50 +0.25 10.00 10.60 15000\<close> and the watchlist AAA the price is 10.50.
\<close>

theorem closing_price_preferred:
  "(\<forall>t \<in> set (filter NUM_RE_match (drop (idx0 + 1) toks)).
       py_float (filter (\<lambda>c. c \<noteq> CHR '','') t) \<noteq> None)
   \<and> line_price toks idx0 =
       (let nums = filter NUM_RE_match (drop (idx0 + 1) toks) in
        if 2 \<le> length nums then py_float (filter (\<lambda>c. c \<noteq> CHR '','') (nums ! 1))
        else if 1 \<le> length nums then py_float (filter (\<lambda>c. c \<noteq> CHR '','') (nums ! 0))
        else None)
   \<and> (find_anchor want out (line_tokens line) = Some (sym0, idx0)
      \<longrightarrow> map_option last_price (map_of (parse_lines want sheet (line # rest) out) sym0)
            = Some (line_price (line_tokens line) idx0))
   \<and> map_option last_price
        (map_of (fst (parse_text [''AAA 10.25 10.50 +0.25 10.00 10.60 15000''] [''AAA''])) ''AAA'')
        = Some (Some (21 / 2))"
proof (intro conjI impI ballI)
  fix t assume "t \<in> set (filter NUM_RE_match (drop (idx0 + 1) toks))"
  then show "py_float (filter (\<lambda>c. c \<noteq> CHR '','') t) \<noteq> None"
    using NUM_RE_float by simp
next
  show "line_price toks idx0 =
       (let nums = filter NUM_RE_match (drop (idx0 + 1) toks) in
        if 2 \<le> length nums then py_float (filter (\<lambda>c. c \<noteq> CHR '','') (nums ! 1))
        else if 1 \<le> length nums then py_float (filter (\<lambda>c. c \<noteq> CHR '','') (nums ! 0))
        else None)"
    by (rule line_price_spec)
next
  assume "find_anchor want out (line_tokens line) = Some (sym0, idx0)"
  then show "map_option last_price (map_of (parse_lines want sheet (line # rest) out) sym0)
            = Some (line_price (line_tokens line) idx0)"
    by (simp add: parse_lines_records del: parse_lines.simps)
next
  let ?L = "''AAA 10.25 10.50 +0.25 10.00 10.60 15000''"
  have l: "splitlines (join_lines [?L]) = [?L]"
    by code_simp
  have a: "find_anchor [''AAA''] [] (line_tokens ?L) = Some (''AAA'', 0)"
    by code_simp
  have n: "filter NUM_RE_match (drop (0 + 1) (line_tokens ?L))
             = [''10.25'', ''10.50'', ''+0.25'', ''10.00'', ''10.60'', ''15000'']"
    by code_simp
  have v: "py_float ''10.50'' = Some (21 / 2)"
    by (simp add: py_float_eval)
  have "line_price (line_tokens ?L) 0 = Some (21 / 2)"
    unfolding line_price_spec n using v by simp
  then show "map_option last_price (map_of (fst (parse_text [?L] [''AAA''])) ''AAA'')
        = Some (Some (21 / 2))"
    using parse_text_one_line [OF l a] by simp
qed

theorem closing_price_preferred_witness:
  "find_anchor [''AAA''] [] (line_tokens ''AAA 1.5 x 2,000 7'') = Some (''AAA'', 0)
   \<and> filter NUM_RE_match (drop (0 + 1) (line_tokens ''AAA 1.5 x 2,000 7'')) = [''1.5'', ''2,000'', ''7'']
   \<and> py_float (filter (\<lambda>c. c \<noteq> CHR '','') ''1.5'') \<noteq> None
   \<and> py_float (filter (\<lambda>c. c \<noteq> CHR '','') ''2,000'') \<noteq> None
   \<and> py_float (filter (\<lambda>c. c \<noteq> CHR '','') ''7'') \<noteq> None
   \<and> map_option last_price (map_of (parse_lines [''AAA''] [] [''AAA 1.5 x 2,000 7''] []) ''AAA'')
        = Some (Some 2000)"
proof -
  have a: "find_anchor [''AAA''] [] (line_tokens ''AAA 1.5 x 2,000 7'') = Some (''AAA'', 0)"
    by code_simp
  have n: "filter NUM_RE_match (drop (0 + 1) (line_tokens ''AAA 1.5 x 2,000 7'')) = [''1.5'', ''2,000'', ''7'']"
    by code_simp
  have v: "py_float (filter (\<lambda>c. c \<noteq> CHR '','') ''2,000'') = Some 2000"
    by (simp add: py_float_eval)
  note c = closing_price_preferred [of 0 "line_tokens ''AAA 1.5 x 2,000 7''" "[''AAA'']" "[]"
      "''AAA 1.5 x 2,000 7''" "''AAA''" "[]" "[]"]
  have p: "line_price (line_tokens ''AAA 1.5 x 2,000 7'') 0 = Some 2000"
    using c [THEN conjunct2, THEN conjunct1] n v by (simp add: Let_def)
  have fl: "\<forall>t \<in> set [''1.5'', ''2,000'', ''7'']. py_float (filter (\<lambda>c. c \<noteq> CHR '','') t) \<noteq> None"
    using c [THEN conjunct1] unfolding n .
  have r: "map_option last_price (map_of (parse_lines [''AAA''] [] [''AAA 1.5 x 2,000 7''] []) ''AAA'')
             = Some (line_price (line_tokens ''AAA 1.5 x 2,000 7'') 0)"
    using c [THEN conjunct2, THEN conjunct2, THEN conjunct1] a by blast
  have fl': "py_float (filter (\<lambda>c. c \<noteq> CHR '','') ''1.5'') \<noteq> None"
    "py_float (filter (\<lambda>c. c \<noteq> CHR '','') ''2,000'') \<noteq> None"
    "py_float (filter (\<lambda>c. c \<noteq> CHR '','') ''7'') \<noteq> None"
    using fl by (simp_all del: filter.simps)
  show ?thesis
    using a n fl' r unfolding p by blast
qed

section \<open>The market loop\<close>


lemma map_of_merge_parsed:
  "map_of (merge_parsed comb parsed) k
     = (case map_of comb k of Some q \<Rightarrow> Some q | None \<Rightarrow> map_of parsed k)"
proof (induction parsed arbitrary: comb)
  case Nil
  then show ?case by (simp split: option.splits)
next
  case (Cons kv kvs)
  obtain k' v where kv: "kv = (k', v)" by (cases kv)
  show ?case
    unfolding kv
    by (simp add: Cons.IH has_key_def update_conv' split: option.splits)
qed

lemma merge_parsed_nonempty:
  "comb \<noteq> [] \<or> parsed \<noteq> [] \<Longrightarrow> merge_parsed comb parsed \<noteq> []"
proof (induction parsed arbitrary: comb)
  case Nil
  then show ?case by simp
next
  case (Cons kv kvs)
  obtain k' v where kv: "kv = (k', v)" by (cases kv)
  have "(if \<not> has_key k' comb then AList.update k' v comb else comb) \<noteq> []"
    by (cases comb) (auto simp: has_key_def)
  then show ?case
    unfolding kv using Cons.IH by simp
qed

lemma after_parse_fields:
  "errors (after_parse symbols (parsed, sheet) st) = errors st"
  "best_quotes (after_parse symbols (parsed, sheet) st) = best_quotes st"
  "used_date (after_parse symbols (parsed, sheet) st) = used_date st"
  "combined (after_parse symbols (parsed, sheet) st) = merge_parsed (combined st) parsed"
  "got_any (after_parse symbols (parsed, sheet) st) = (got_any st \<or> parsed \<noteq> [])"
  "used_as_at (after_parse symbols (parsed, sheet) st)
     = (if parsed \<noteq> [] \<and> sheet \<noteq> [] then sheet else used_as_at st)"
  by (simp_all add: after_parse_def)

lemma market_loop_keeps:
  "map_of (combined st) k = Some q
     \<Longrightarrow> map_of (combined (market_loop fetch pages symbols d mids st)) k = Some q"
proof (induction mids arbitrary: st)
  case Nil
  then show ?case by simp
next
  case (Cons mid mids)
  show ?case
  proof (cases "fetch d mid")
    case (Inl e)
    then show ?thesis using Cons by simp
  next
    case (Inr b)
    show ?thesis
    proof (cases "parse_quotes pages b symbols")
      case (Inl e)
      then show ?thesis using Inr Cons by simp
    next
      case r: (Inr r)
      obtain parsed sheet where ps: "r = (parsed, sheet)" by (cases r)
      have "map_of (combined (after_parse symbols r st)) k = Some q"
        using Cons.prems by (simp add: ps after_parse_fields map_of_merge_parsed)
      then show ?thesis
        using Inr r Cons.IH by (simp add: Let_def)
    qed
  qed
qed

lemma market_loop_first:
  assumes "fetch d m1 = Inr b1" "parse_quotes pages b1 symbols = Inr (parsed1, sheet1)"
    "map_of parsed1 x = Some p1" "\<not> has_key x (combined st)"
  shows "map_of (combined (market_loop fetch pages symbols d (m1 # later) st)) x = Some p1"
proof -
  have "map_of (combined (after_parse symbols (parsed1, sheet1) st)) x = Some p1"
    using assms(3,4) by (simp add: after_parse_fields map_of_merge_parsed has_key_def)
  then show ?thesis
    using assms(1,2)
      market_loop_keeps [of "after_parse symbols (parsed1, sheet1) st" x p1 fetch pages symbols d later]
    by (simp add: Let_def)
qed

lemma market_loop_nonempty:
  "combined st \<noteq> [] \<Longrightarrow> combined (market_loop fetch pages symbols d mids st) \<noteq> []"
proof (induction mids arbitrary: st)
  case Nil
  then show ?case by simp
next
  case (Cons mid mids)
  have ap: "\<And>r. combined (after_parse symbols r st) \<noteq> []"
  proof -
    fix r :: "quotes \<times> string"
    obtain parsed sheet where "r = (parsed, sheet)" by (cases r)
    then show "combined (after_parse symbols r st) \<noteq> []"
      using Cons.prems by (simp add: after_parse_fields merge_parsed_nonempty)
  qed
  show ?case
    using Cons ap by (simp add: Let_def split: sum.splits)
qed

lemma market_loop_got_any:
  "(combined st \<noteq> [] \<longrightarrow> got_any st)
     \<Longrightarrow> combined (market_loop fetch pages symbols d mids st) \<noteq> []
     \<Longrightarrow> got_any (market_loop fetch pages symbols d mids st)"
proof (induction mids arbitrary: st)
  case Nil
  then show ?case by simp
next
  case (Cons mid mids)
  have ap: "\<And>r. combined (after_parse symbols r st) \<noteq> [] \<longrightarrow> got_any (after_parse symbols r st)"
  proof -
    fix r :: "quotes \<times> string"
    obtain parsed sheet where ps: "r = (parsed, sheet)" by (cases r)
    show "combined (after_parse symbols r st) \<noteq> [] \<longrightarrow> got_any (after_parse symbols r st)"
      using Cons.prems(1) unfolding ps by (cases parsed) (auto simp: after_parse_fields)
  qed
  show ?case
  proof (cases "fetch d mid")
    case (Inl e)
    then show ?thesis using Cons by simp
  next
    case (Inr b)
    show ?thesis
    proof (cases "parse_quotes pages b symbols")
      case (Inl e)
      then show ?thesis using Inr Cons by simp
    next
      case r: (Inr r)
      show ?thesis
        using Inr r Cons.IH [OF ap [of r]] Cons.prems(2) ap [of r]
        by (simp add: Let_def split: if_splits)
    qed
  qed
qed

lemma market_loop_used_as_at:
  "combined (market_loop fetch pages symbols d mids st) = []
     \<Longrightarrow> used_as_at (market_loop fetch pages symbols d mids st) = used_as_at st"
proof (induction mids arbitrary: st)
  case Nil
  then show ?case by simp
next
  case (Cons mid mids)
  show ?case
  proof (cases "fetch d mid")
    case (Inl e)
    then show ?thesis using Cons by simp
  next
    case (Inr b)
    show ?thesis
    proof (cases "parse_quotes pages b symbols")
      case (Inl e)
      then show ?thesis using Inr Cons by simp
    next
      case r: (Inr r)
      obtain parsed sheet where ps: "r = (parsed, sheet)" by (cases r)
      have e: "combined (after_parse symbols r st) = []"
        using Cons.prems Inr r market_loop_nonempty [of "after_parse symbols r st" fetch pages symbols d mids]
        by (auto simp: Let_def split: if_splits)
      then have "parsed = []"
        using merge_parsed_nonempty [of "combined st" parsed] by (auto simp: ps after_parse_fields)
      then have u: "used_as_at (after_parse symbols r st) = used_as_at st"
        by (simp add: ps after_parse_fields)
      show ?thesis
        using Inr r Cons.IH [of "after_parse symbols r st"] Cons.prems u
        by (simp add: Let_def split: if_splits)
    qed
  qed
qed

lemma market_loop_best:
  "best_quotes (market_loop fetch pages symbols d mids st) = best_quotes st
     \<and> used_date (market_loop fetch pages symbols d mids st) = used_date st
   \<or> best_quotes (market_loop fetch pages symbols d mids st)
        = combined (market_loop fetch pages symbols d mids st)
     \<and> used_date (market_loop fetch pages symbols d mids st) = d
     \<and> length (combined (market_loop fetch pages symbols d mids st)) = length symbols"
proof (induction mids arbitrary: st)
  case Nil
  then show ?case by simp
next
  case (Cons mid mids)
  show ?case
  proof (cases "fetch d mid")
    case (Inl e)
    then show ?thesis
      using Cons [of "st\<lparr>errors := errors st @ [error_line d mid e]\<rparr>"] by simp
  next
    case (Inr b)
    show ?thesis
    proof (cases "parse_quotes pages b symbols")
      case (Inl e)
      then show ?thesis
        using Inr Cons [of "st\<lparr>errors := errors st @ [error_line d mid e]\<rparr>"] by simp
    next
      case r: (Inr r)
      obtain parsed sheet where ps: "r = (parsed, sheet)" by (cases r)
      show ?thesis
        using Inr r Cons [of "after_parse symbols r st"]
        by (auto simp: Let_def ps after_parse_fields)
    qed
  qed
qed

section \<open>The date loop\<close>


lemma market_loop_combined_frame:
  "combined st = combined st2
     \<Longrightarrow> combined (market_loop fetch pages symbols d mids st)
         = combined (market_loop fetch pages symbols d mids st2)"
proof (induction mids arbitrary: st st2)
  case Nil
  then show ?case by simp
next
  case (Cons mid mids)
  show ?case
  proof (cases "fetch d mid")
    case (Inl e)
    then show ?thesis
      using Cons.IH [of "st\<lparr>errors := errors st @ [error_line d mid e]\<rparr>"
          "st2\<lparr>errors := errors st2 @ [error_line d mid e]\<rparr>"] Cons.prems
      by simp
  next
    case (Inr b)
    show ?thesis
    proof (cases "parse_quotes pages b symbols")
      case (Inl e)
      then show ?thesis
        using Inr Cons.IH [of "st\<lparr>errors := errors st @ [error_line d mid e]\<rparr>"
            "st2\<lparr>errors := errors st2 @ [error_line d mid e]\<rparr>"] Cons.prems
        by simp
    next
      case r: (Inr r)
      obtain parsed sheet where ps: "r = (parsed, sheet)" by (cases r)
      have c: "combined (after_parse symbols r st) = combined (after_parse symbols r st2)"
        using Cons.prems by (simp add: ps after_parse_fields)
      show ?thesis
        using Inr r c Cons.IH [OF c] by (simp add: Let_def)
    qed
  qed
qed

lemma date_combined_eq:
  "combined (market_loop fetch pages symbols d mids (st\<lparr>combined := [], got_any := False\<rparr>))
     = date_combined fetch pages symbols mids d"
  unfolding date_combined_def
  by (rule market_loop_combined_frame) (simp add: init_vars_def)

lemma market_loop_cong:
  "(\<And>m. fetch' d m = fetch d m)
     \<Longrightarrow> market_loop fetch' pages symbols d mids st = market_loop fetch pages symbols d mids st"
  by (induction mids arbitrary: st) (simp_all add: Let_def split: sum.splits)

lemma date_loop_cong:
  "(\<And>d m. d \<in> set dates \<Longrightarrow> fetch' d m = fetch d m)
     \<Longrightarrow> date_loop fetch' pages symbols mids dates st = date_loop fetch pages symbols mids dates st"
proof (induction dates arbitrary: st)
  case Nil
  then show ?case by simp
next
  case (Cons d older)
  have m: "\<And>st. market_loop fetch' pages symbols d mids st = market_loop fetch pages symbols d mids st"
    by (rule market_loop_cong) (simp add: Cons.prems)
  have o: "\<And>st. date_loop fetch' pages symbols mids older st = date_loop fetch pages symbols mids older st"
    by (rule Cons.IH) (simp add: Cons.prems)
  show ?case
    by (simp add: m o Let_def)
qed

lemma date_combined_cong:
  "(\<And>m. fetch' d m = fetch d m)
     \<Longrightarrow> date_combined fetch' pages symbols mids d = date_combined fetch pages symbols mids d"
  unfolding date_combined_def by (subst market_loop_cong [of fetch' d fetch]) simp_all

lemma date_loop_skip:
  assumes "best_quotes st = []" "date_combined fetch pages symbols mids d = []"
  shows "date_loop fetch pages symbols mids (d # older) st
           = date_loop fetch pages symbols mids older
               (market_loop fetch pages symbols d mids (st\<lparr>combined := [], got_any := False\<rparr>))"
    and "best_quotes (market_loop fetch pages symbols d mids (st\<lparr>combined := [], got_any := False\<rparr>)) = []"
proof -
  let ?st1 = "market_loop fetch pages symbols d mids (st\<lparr>combined := [], got_any := False\<rparr>)"
  have c: "combined ?st1 = []"
    using assms(2) by (simp add: date_combined_eq)
  show b: "best_quotes ?st1 = []"
    using market_loop_best [of fetch pages symbols d mids "st\<lparr>combined := [], got_any := False\<rparr>"]
      assms(1) c by auto
  show "date_loop fetch pages symbols mids (d # older) st = date_loop fetch pages symbols mids older ?st1"
    using b c by (simp add: Let_def)
qed

lemma date_loop_stop:
  assumes "best_quotes st = []" "date_combined fetch pages symbols mids d \<noteq> []"
  shows "date_loop fetch pages symbols mids (d # older) st
           = date_loop fetch pages symbols mids [d] st"
    and "best_quotes (date_loop fetch pages symbols mids [d] st)
           = date_combined fetch pages symbols mids d"
    and "used_date (date_loop fetch pages symbols mids [d] st) = d"
proof -
  let ?st0 = "st\<lparr>combined := [], got_any := False\<rparr>"
  let ?st1 = "market_loop fetch pages symbols d mids ?st0"
  have c: "combined ?st1 = date_combined fetch pages symbols mids d"
    by (simp add: date_combined_eq)
  have g: "got_any ?st1"
    by (rule market_loop_got_any) (use c assms(2) in simp_all)
  have b: "best_quotes ?st1 = [] \<or> best_quotes ?st1 = combined ?st1 \<and> used_date ?st1 = d"
    using market_loop_best [of fetch pages symbols d mids ?st0] assms(1) by auto
  show "date_loop fetch pages symbols mids (d # older) st = date_loop fetch pages symbols mids [d] st"
    using g c assms(2) by (simp add: Let_def)
  show "best_quotes (date_loop fetch pages symbols mids [d] st) = date_combined fetch pages symbols mids d"
    using g c b assms(2) by (auto simp: Let_def)
  show "used_date (date_loop fetch pages symbols mids [d] st) = d"
    using g c b assms(2) by (auto simp: Let_def)
qed

lemma date_loop_first_hit:
  assumes "\<forall>d'\<in>set pre. date_combined fetch pages symbols mids d' = []"
    "date_combined fetch pages symbols mids d \<noteq> []" "best_quotes st = []"
  shows "date_loop fetch pages symbols mids (pre @ d # post) st
           = date_loop fetch pages symbols mids (pre @ [d]) st
         \<and> best_quotes (date_loop fetch pages symbols mids (pre @ [d]) st)
             = date_combined fetch pages symbols mids d
         \<and> used_date (date_loop fetch pages symbols mids (pre @ [d]) st) = d"
  using assms
proof (induction pre arbitrary: st)
  case Nil
  then show ?case
    using date_loop_stop [of st fetch pages symbols mids d] by simp
next
  case (Cons d' pre)
  let ?st1 = "market_loop fetch pages symbols d' mids (st\<lparr>combined := [], got_any := False\<rparr>)"
  have e: "date_combined fetch pages symbols mids d' = []"
    using Cons.prems(1) by simp
  have s: "\<And>older. date_loop fetch pages symbols mids (d' # older) st
              = date_loop fetch pages symbols mids older ?st1"
    using date_loop_skip(1) [OF Cons.prems(3) e] by simp
  have b: "best_quotes ?st1 = []"
    using date_loop_skip(2) [OF Cons.prems(3) e] .
  have ih: "date_loop fetch pages symbols mids (pre @ d # post) ?st1
           = date_loop fetch pages symbols mids (pre @ [d]) ?st1
         \<and> best_quotes (date_loop fetch pages symbols mids (pre @ [d]) ?st1)
             = date_combined fetch pages symbols mids d
         \<and> used_date (date_loop fetch pages symbols mids (pre @ [d]) ?st1) = d"
    by (rule Cons.IH) (use Cons.prems b in simp_all)
  show ?case
    using ih s [of "pre @ d # post"] s [of "pre @ [d]"] by (simp del: date_loop.simps)
qed

lemma date_loop_exhausted:
  assumes "\<forall>d\<in>set dates. date_combined fetch pages symbols mids d = []" "best_quotes st = []"
  shows "best_quotes (date_loop fetch pages symbols mids dates st) = []
         \<and> used_as_at (date_loop fetch pages symbols mids dates st) = used_as_at st"
  using assms
proof (induction dates arbitrary: st)
  case Nil
  then show ?case by simp
next
  case (Cons d older)
  let ?st1 = "market_loop fetch pages symbols d mids (st\<lparr>combined := [], got_any := False\<rparr>)"
  have e: "date_combined fetch pages symbols mids d = []"
    using Cons.prems(1) by simp
  have s: "date_loop fetch pages symbols mids (d # older) st
              = date_loop fetch pages symbols mids older ?st1"
    using date_loop_skip(1) [OF Cons.prems(2) e] by simp
  have b: "best_quotes ?st1 = []"
    using date_loop_skip(2) [OF Cons.prems(2) e] .
  have u: "used_as_at ?st1 = used_as_at st"
    using market_loop_used_as_at [of fetch pages symbols d mids "st\<lparr>combined := [], got_any := False\<rparr>"] e
    by (simp add: date_combined_eq)
  have ih: "best_quotes (date_loop fetch pages symbols mids older ?st1) = []
         \<and> used_as_at (date_loop fetch pages symbols mids older ?st1) = used_as_at ?st1"
    by (rule Cons.IH) (use Cons.prems b in simp_all)
  show ?case
    unfolding s using ih u by simp
qed

section \<open>Precedence among lines, markets and dates\<close>


lemma parse_text_single:
  assumes "splitlines (join_lines texts) = [line]"
    and "find_anchor symbols [] (line_tokens line) = Some (s, i)"
  shows "parse_text texts symbols
           = ([(s, \<lparr>symbol = s, last_price = line_price (line_tokens line) i,
                     as_at = parse_sheet_date (join_lines texts), source = ''JSE_DAILY_PDF''\<rparr>)],
              parse_sheet_date (join_lines texts))"
proof -
  have "line_tokens line \<noteq> []" "strip line \<noteq> []"
    using assms(2) line_tokens_blank [of line] by auto
  then show ?thesis
    using assms by (simp add: parse_text_def Let_def)
qed

lemma parse_text_single_none:
  assumes "splitlines (join_lines texts) = [line]"
    and "find_anchor symbols [] (line_tokens line) = None"
  shows "parse_text texts symbols = ([], parse_sheet_date (join_lines texts))"
  using assms by (simp add: parse_text_def Let_def)

lemma ex_parse_label:
  "parse_text [''Sheet for March 5, 2024''] ex_symbols = ([], ''March 5, 2024'')"
proof -
  have l: "splitlines (join_lines [''Sheet for March 5, 2024'']) = [''Sheet for March 5, 2024'']"
    by code_simp
  have a: "find_anchor ex_symbols [] (line_tokens ''Sheet for March 5, 2024'') = None"
    by code_simp
  have d: "parse_sheet_date (join_lines [''Sheet for March 5, 2024'']) = ''March 5, 2024''"
    by code_simp
  show ?thesis
    using parse_text_single_none [OF l a] d by simp
qed

lemma ex_parse_m1:
  "parse_text [''AAA 1.00''] ex_symbols = ([(''AAA'', ex_quote ''AAA'' 1)], [])"
proof -
  have l: "splitlines (join_lines [''AAA 1.00'']) = [''AAA 1.00'']"
    by code_simp
  have a: "find_anchor ex_symbols [] (line_tokens ''AAA 1.00'') = Some (''AAA'', 0)"
    by code_simp
  have d: "parse_sheet_date (join_lines [''AAA 1.00'']) = []"
    by code_simp
  have n: "filter NUM_RE_match (drop (0 + 1) (line_tokens ''AAA 1.00'')) = [''1.00'']"
    by code_simp
  have v: "py_float ''1.00'' = Some 1"
    by (simp add: py_float_eval)
  have p: "line_price (line_tokens ''AAA 1.00'') 0 = Some 1"
    unfolding line_price_spec n using v by simp
  show ?thesis
    using parse_text_single [OF l a] d p by (simp add: ex_quote_def)
qed

lemma ex_parse_m2:
  "parse_text [''AAA BBB 5.00''] ex_symbols = ([(''AAA'', ex_quote ''AAA'' 5)], [])"
proof -
  have l: "splitlines (join_lines [''AAA BBB 5.00'']) = [''AAA BBB 5.00'']"
    by code_simp
  have a: "find_anchor ex_symbols [] (line_tokens ''AAA BBB 5.00'') = Some (''AAA'', 0)"
    by code_simp
  have d: "parse_sheet_date (join_lines [''AAA BBB 5.00'']) = []"
    by code_simp
  have n: "filter NUM_RE_match (drop (0 + 1) (line_tokens ''AAA BBB 5.00'')) = [''5.00'']"
    by code_simp
  have v: "py_float ''5.00'' = Some 5"
    by (simp add: py_float_eval)
  have p: "line_price (line_tokens ''AAA BBB 5.00'') 0 = Some 5"
    unfolding line_price_spec n using v by simp
  show ?thesis
    using parse_text_single [OF l a] d p by (simp add: ex_quote_def)
qed

lemma ex_parse_m2_unresolved:
  "parse_text [''AAA BBB 5.00''] [''BBB''] = ([(''BBB'', ex_quote ''BBB'' 5)], [])"
proof -
  have l: "splitlines (join_lines [''AAA BBB 5.00'']) = [''AAA BBB 5.00'']"
    by code_simp
  have a: "find_anchor [''BBB''] [] (line_tokens ''AAA BBB 5.00'') = Some (''BBB'', 1)"
    by code_simp
  have d: "parse_sheet_date (join_lines [''AAA BBB 5.00'']) = []"
    by code_simp
  have n: "filter NUM_RE_match (drop (1 + 1) (line_tokens ''AAA BBB 5.00'')) = [''5.00'']"
    by code_simp
  have v: "py_float ''5.00'' = Some 5"
    by (simp add: py_float_eval)
  have p: "line_price (line_tokens ''AAA BBB 5.00'') 1 = Some 5"
    unfolding line_price_spec n using v by simp
  show ?thesis
    using parse_text_single [OF l a] d p by (simp add: ex_quote_def)
qed

lemma ex_parse_old:
  "parse_text [''BBB 9.00''] ex_symbols = ([(''BBB'', ex_quote ''BBB'' 9)], [])"
proof -
  have l: "splitlines (join_lines [''BBB 9.00'']) = [''BBB 9.00'']"
    by code_simp
  have a: "find_anchor ex_symbols [] (line_tokens ''BBB 9.00'') = Some (''BBB'', 0)"
    by code_simp
  have d: "parse_sheet_date (join_lines [''BBB 9.00'']) = []"
    by code_simp
  have n: "filter NUM_RE_match (drop (0 + 1) (line_tokens ''BBB 9.00'')) = [''9.00'']"
    by code_simp
  have v: "py_float ''9.00'' = Some 9"
    by (simp add: py_float_eval)
  have p: "line_price (line_tokens ''BBB 9.00'') 0 = Some 9"
    unfolding line_price_spec n using v by simp
  show ?thesis
    using parse_text_single [OF l a] d p by (simp add: ex_quote_def)
qed

lemmas ex_eval = ex_fetch_def ex_pages_def parse_quotes_def after_parse_def has_key_def
  init_vars_def Let_def ex_parse_label ex_parse_m1 ex_parse_m2 ex_parse_old

lemma ex_newest_day:
  "market_loop ex_fetch ex_pages ex_symbols ''2024-03-05'' [1, 2] init_vars
     = init_vars\<lparr>errors := [''2024-03-05 market 1: RuntimeError: HTTP 404 fetching quote page'']\<rparr>"
proof -
  have s: "py_str_int 1 = ''1''" by code_simp
  have n: "length ex_symbols = 2" by (simp add: ex_symbols_def)
  show ?thesis
    by (simp add: ex_eval error_line_def s n)
qed

lemma ex_days:
  "date_combined ex_fetch ex_pages ex_symbols [1, 2] ''2024-03-05'' = []"
  "date_combined ex_fetch ex_pages ex_symbols [1, 2] ''2024-03-04'' = [(''AAA'', ex_quote ''AAA'' 1)]"
  "date_combined ex_fetch ex_pages ex_symbols [1, 2] ''2024-03-03'' = [(''BBB'', ex_quote ''BBB'' 9)]"
proof -
  have n: "length ex_symbols = 2" by (simp add: ex_symbols_def)
  show "date_combined ex_fetch ex_pages ex_symbols [1, 2] ''2024-03-05'' = []"
    by (simp add: date_combined_def ex_eval n)
  show "date_combined ex_fetch ex_pages ex_symbols [1, 2] ''2024-03-04'' = [(''AAA'', ex_quote ''AAA'' 1)]"
    by (simp add: date_combined_def ex_eval n)
  show "date_combined ex_fetch ex_pages ex_symbols [1, 2] ''2024-03-03'' = [(''BBB'', ex_quote ''BBB'' 9)]"
    by (simp add: date_combined_def ex_eval n)
qed

text \<open>
  C4. First writer wins at both levels. In one parse pass an entry of the parser's mapping
  is never overwritten by a later line; in the market loop of one date an entry of the
  combined mapping is never overwritten by a later market. So when a market resolves a
  symbol that has no entry yet, that quote is the one in the combined mapping after the
  loop and in the final mapping, whatever the later markets would resolve it to.
\<close>

theorem first_writer_wins:
  "(map_of out k = Some q \<longrightarrow> map_of (parse_lines want sheet lines out) k = Some q)
   \<and> (map_of (combined st) k = Some q
        \<longrightarrow> map_of (combined (market_loop fetch pages symbols d mids st)) k = Some q)
   \<and> (fetch d m1 = Inr b1 \<and> parse_quotes pages b1 symbols = Inr (parsed1, sheet1)
        \<and> map_of parsed1 x = Some p1 \<and> \<not> has_key x (combined st)
        \<longrightarrow> map_of (combined (market_loop fetch pages symbols d (m1 # later) st)) x = Some p1)
   \<and> (fetch d m1 = Inr b1 \<and> parse_quotes pages b1 symbols = Inr (parsed1, sheet1)
        \<and> map_of parsed1 x = Some p1 \<and> best_quotes st = []
        \<longrightarrow> map_of (best_quotes (date_loop fetch pages symbols (m1 # later) (d # older) st)) x
              = Some p1)"
proof (intro conjI impI)
  assume "map_of out k = Some q"
  then show "map_of (parse_lines want sheet lines out) k = Some q"
    by (rule parse_lines_keeps)
next
  assume "map_of (combined st) k = Some q"
  then show "map_of (combined (market_loop fetch pages symbols d mids st)) k = Some q"
    by (rule market_loop_keeps)
next
  assume a: "fetch d m1 = Inr b1 \<and> parse_quotes pages b1 symbols = Inr (parsed1, sheet1)
        \<and> map_of parsed1 x = Some p1 \<and> \<not> has_key x (combined st)"
  show "map_of (combined (market_loop fetch pages symbols d (m1 # later) st)) x = Some p1"
    by (rule market_loop_first [of fetch d m1 b1 pages symbols parsed1 sheet1])
      (use a in simp_all)
next
  assume a: "fetch d m1 = Inr b1 \<and> parse_quotes pages b1 symbols = Inr (parsed1, sheet1)
        \<and> map_of parsed1 x = Some p1 \<and> best_quotes st = []"
  have "map_of (combined (market_loop fetch pages symbols d (m1 # later) init_vars)) x = Some p1"
    by (rule market_loop_first [of fetch d m1 b1 pages symbols parsed1 sheet1])
      (use a in \<open>simp_all add: init_vars_def has_key_def\<close>)
  then have c: "map_of (date_combined fetch pages symbols (m1 # later) d) x = Some p1"
    by (simp add: date_combined_def)
  then have ne: "date_combined fetch pages symbols (m1 # later) d \<noteq> []"
    by auto
  have b: "best_quotes st = []" using a by simp
  show "map_of (best_quotes (date_loop fetch pages symbols (m1 # later) (d # older) st)) x = Some p1"
    using date_loop_stop(1) [OF b ne, of older] date_loop_stop(2) [OF b ne] c
    by (simp del: date_loop.simps)
qed

theorem first_writer_wins_witness:
  "map_of [(''AAA'', ex_quote ''AAA'' 1)] ''AAA'' = Some (ex_quote ''AAA'' 1)
   \<and> map_of (parse_lines [''AAA''] [] [''AAA 5.00''] [(''AAA'', ex_quote ''AAA'' 1)]) ''AAA''
        = Some (ex_quote ''AAA'' 1)
   \<and> map_of (combined (market_loop ex_fetch ex_pages ex_symbols ''2024-03-04'' [2]
         (init_vars\<lparr>combined := [(''AAA'', ex_quote ''AAA'' 1)]\<rparr>))) ''AAA''
        = Some (ex_quote ''AAA'' 1)
   \<and> ex_fetch ''2024-03-04'' 1 = Inr ''AAA 1.00''
   \<and> parse_quotes ex_pages ''AAA 1.00'' ex_symbols = Inr ([(''AAA'', ex_quote ''AAA'' 1)], [])
   \<and> ex_fetch ''2024-03-04'' 2 = Inr ''AAA BBB 5.00''
   \<and> parse_quotes ex_pages ''AAA BBB 5.00'' ex_symbols = Inr ([(''AAA'', ex_quote ''AAA'' 5)], [])
   \<and> map_of (combined (market_loop ex_fetch ex_pages ex_symbols ''2024-03-04'' [1, 2] init_vars)) ''AAA''
        = Some (ex_quote ''AAA'' 1)
   \<and> map_of (best_quotes (date_loop ex_fetch ex_pages ex_symbols [1, 2]
         [''2024-03-04'', ''2024-03-03''] init_vars)) ''AAA''
        = Some (ex_quote ''AAA'' 1)"
proof -
  let ?q = "ex_quote ''AAA'' 1"
  have f1: "ex_fetch ''2024-03-04'' 1 = Inr ''AAA 1.00''"
    by (simp add: ex_fetch_def)
  have f2: "ex_fetch ''2024-03-04'' 2 = Inr ''AAA BBB 5.00''"
    by (simp add: ex_fetch_def)
  have p1: "parse_quotes ex_pages ''AAA 1.00'' ex_symbols = Inr ([(''AAA'', ?q)], [])"
    by (simp add: ex_eval)
  have p2: "parse_quotes ex_pages ''AAA BBB 5.00'' ex_symbols = Inr ([(''AAA'', ex_quote ''AAA'' 5)], [])"
    by (simp add: ex_eval)
  have h: "map_of [(''AAA'', ?q)] ''AAA'' = Some ?q"
    by simp
  have nk: "\<not> has_key ''AAA'' (combined init_vars)" "best_quotes init_vars = []"
    by (simp_all add: init_vars_def has_key_def)
  have w1: "map_of (parse_lines [''AAA''] [] [''AAA 5.00''] [(''AAA'', ?q)]) ''AAA'' = Some ?q"
    by (rule first_writer_wins [THEN conjunct1, THEN mp]) (rule h)
  have w2: "map_of (combined (market_loop ex_fetch ex_pages ex_symbols ''2024-03-04'' [2]
         (init_vars\<lparr>combined := [(''AAA'', ?q)]\<rparr>))) ''AAA'' = Some ?q"
    by (rule first_writer_wins [THEN conjunct2, THEN conjunct1, THEN mp]) simp
  have w3: "map_of (combined (market_loop ex_fetch ex_pages ex_symbols ''2024-03-04'' [1, 2] init_vars)) ''AAA''
        = Some ?q"
    by (rule first_writer_wins [THEN conjunct2, THEN conjunct2, THEN conjunct1, THEN mp])
      (intro conjI, rule f1, rule p1, rule h, rule nk(1))
  have w4: "map_of (best_quotes (date_loop ex_fetch ex_pages ex_symbols [1, 2]
         [''2024-03-04'', ''2024-03-03''] init_vars)) ''AAA'' = Some ?q"
    by (rule first_writer_wins [THEN conjunct2, THEN conjunct2, THEN conjunct2, THEN mp])
      (intro conjI, rule f1, rule p1, rule h, rule nk(2))
  show ?thesis
    using h w1 w2 f1 p1 f2 p2 w3 w4 by blast
qed

text \<open>
  C3. The candidate dates are today minus 0, 1, ... up to the lookback minus 1, in that
  order. The run stops at the first date whose combined mapping is not empty: that mapping
  is the final result and that date the date used, also when the mapping covers only part
  of the watchlist. No older date is tried: the final state is the same for any older dates
  and for any sheets published on other dates.
\<close>

theorem first_date_with_a_hit_is_final:
  "(latest_trading_date_iso fmt tod n = Inr dates
      \<longrightarrow> dates = map (\<lambda>k. fmt (tod - int k)) [0 ..< nat n])
   \<and> ((\<forall>d'\<in>set pre. date_combined fetch pages symbols mids d' = [])
        \<and> date_combined fetch pages symbols mids d \<noteq> []
      \<longrightarrow> best_quotes (date_loop fetch pages symbols mids (pre @ d # post) init_vars)
            = date_combined fetch pages symbols mids d
          \<and> used_date (date_loop fetch pages symbols mids (pre @ d # post) init_vars) = d
          \<and> (\<forall>fetch' post'. (\<forall>d'\<in>set (pre @ [d]). \<forall>m. fetch' d' m = fetch d' m)
                \<longrightarrow> date_loop fetch' pages symbols mids (pre @ d # post') init_vars
                      = date_loop fetch pages symbols mids (pre @ d # post) init_vars))"
proof (intro conjI impI allI)
  assume "latest_trading_date_iso fmt tod n = Inr dates"
  then show "dates = map (\<lambda>k. fmt (tod - int k)) [0 ..< nat n]"
    by (auto simp: latest_trading_date_iso_def split: if_splits)
next
  assume a: "(\<forall>d'\<in>set pre. date_combined fetch pages symbols mids d' = [])
        \<and> date_combined fetch pages symbols mids d \<noteq> []"
  have b: "best_quotes init_vars = []" by (simp add: init_vars_def)
  note h = date_loop_first_hit [of pre fetch pages symbols mids d init_vars]
  show "best_quotes (date_loop fetch pages symbols mids (pre @ d # post) init_vars)
            = date_combined fetch pages symbols mids d"
    using h [of post] a b by simp
  show "used_date (date_loop fetch pages symbols mids (pre @ d # post) init_vars) = d"
    using h [of post] a b by simp
  fix fetch' :: "string \<Rightarrow> int \<Rightarrow> exn + 'a" and post'
  assume c: "\<forall>d'\<in>set (pre @ [d]). \<forall>m. fetch' d' m = fetch d' m"
  have a': "(\<forall>d'\<in>set pre. date_combined fetch' pages symbols mids d' = [])"
    "date_combined fetch' pages symbols mids d \<noteq> []"
    using a c by (simp_all add: date_combined_cong [of fetch' _ fetch])
  have "date_loop fetch' pages symbols mids (pre @ d # post') init_vars
          = date_loop fetch' pages symbols mids (pre @ [d]) init_vars"
    using date_loop_first_hit [of pre fetch' pages symbols mids d init_vars post'] a' b by simp
  also have "\<dots> = date_loop fetch pages symbols mids (pre @ [d]) init_vars"
    by (rule date_loop_cong) (use c in auto)
  also have "\<dots> = date_loop fetch pages symbols mids (pre @ d # post) init_vars"
    using h [of post] a b by simp
  finally show "date_loop fetch' pages symbols mids (pre @ d # post') init_vars
                      = date_loop fetch pages symbols mids (pre @ d # post) init_vars" .
qed


theorem first_date_with_a_hit_is_final_witness:
  "latest_trading_date_iso py_str_int 100 3 = Inr [''100'', ''99'', ''98'']
   \<and> [''100'', ''99'', ''98''] = map (\<lambda>k. py_str_int (100 - int k)) [0 ..< nat 3]
   \<and> date_combined ex_fetch ex_pages ex_symbols [1, 2] ''2024-03-05'' = []
   \<and> date_combined ex_fetch ex_pages ex_symbols [1, 2] ''2024-03-04'' = [(''AAA'', ex_quote ''AAA'' 1)]
   \<and> date_combined ex_fetch ex_pages ex_symbols [1, 2] ''2024-03-03'' = [(''BBB'', ex_quote ''BBB'' 9)]
   \<and> best_quotes (date_loop ex_fetch ex_pages ex_symbols [1, 2]
        [''2024-03-05'', ''2024-03-04'', ''2024-03-03''] init_vars) = [(''AAA'', ex_quote ''AAA'' 1)]
   \<and> used_date (date_loop ex_fetch ex_pages ex_symbols [1, 2]
        [''2024-03-05'', ''2024-03-04'', ''2024-03-03''] init_vars) = ''2024-03-04''
   \<and> date_loop (\<lambda>d m. if d = ''2024-03-03'' then Inl (Exn ''RuntimeError'' ''unreachable'')
                         else ex_fetch d m)
        ex_pages ex_symbols [1, 2] [''2024-03-05'', ''2024-03-04''] init_vars
      = date_loop ex_fetch ex_pages ex_symbols [1, 2]
          [''2024-03-05'', ''2024-03-04'', ''2024-03-03''] init_vars"
proof -
  let ?f = "\<lambda>d m. if d = ''2024-03-03'' then Inl (Exn ''RuntimeError'' ''unreachable'')
                   else ex_fetch d m"
  note t = first_date_with_a_hit_is_final [where pre = "[''2024-03-05'']" and d = "''2024-03-04''"
      and post = "[''2024-03-03'']" and fetch = ex_fetch and pages = ex_pages
      and symbols = ex_symbols and mids = "[1, 2]" and fmt = py_str_int and tod = 100 and n = 3
      and dates = "[''100'', ''99'', ''98'']"]
  have l: "latest_trading_date_iso py_str_int 100 3 = Inr [''100'', ''99'', ''98'']"
    by code_simp
  have l': "[''100'', ''99'', ''98''] = map (\<lambda>k. py_str_int (100 - int k)) [0 ..< nat 3]"
    using t [THEN conjunct1, THEN mp, OF l] .
  have hyp: "(\<forall>d'\<in>set [''2024-03-05'']. date_combined ex_fetch ex_pages ex_symbols [1, 2] d' = [])
        \<and> date_combined ex_fetch ex_pages ex_symbols [1, 2] ''2024-03-04'' \<noteq> []"
    by (simp add: ex_days)
  note c = t [THEN conjunct2, THEN mp, OF hyp]
  have b: "best_quotes (date_loop ex_fetch ex_pages ex_symbols [1, 2]
        [''2024-03-05'', ''2024-03-04'', ''2024-03-03''] init_vars) = [(''AAA'', ex_quote ''AAA'' 1)]"
    using c [THEN conjunct1] by (simp add: ex_days del: date_loop.simps)
  have u: "used_date (date_loop ex_fetch ex_pages ex_symbols [1, 2]
        [''2024-03-05'', ''2024-03-04'', ''2024-03-03''] init_vars) = ''2024-03-04''"
    using c [THEN conjunct2, THEN conjunct1] by (simp del: date_loop.simps)
  have agree: "\<forall>d'\<in>set ([''2024-03-05''] @ [''2024-03-04'']). \<forall>m. ?f d' m = ex_fetch d' m"
    by simp
  have e: "date_loop ?f ex_pages ex_symbols [1, 2] [''2024-03-05'', ''2024-03-04''] init_vars
      = date_loop ex_fetch ex_pages ex_symbols [1, 2]
          [''2024-03-05'', ''2024-03-04'', ''2024-03-03''] init_vars"
    using c [THEN conjunct2, THEN conjunct2, THEN spec, THEN spec, THEN mp, of ?f "[]", OF agree]
    by (simp del: date_loop.simps)
  show ?thesis
    using l l' ex_days b u e by blast
qed

section \<open>The symbols given to the parser\<close>


lemma market_loop_one:
  "market_loop fetch pages symbols d [mid] st =
     (case fetch d mid of
        Inl e \<Rightarrow> st\<lparr>errors := errors st @ [error_line d mid e]\<rparr>
      | Inr b \<Rightarrow>
          (case parse_quotes pages b symbols of
             Inl e \<Rightarrow> st\<lparr>errors := errors st @ [error_line d mid e]\<rparr>
           | Inr r \<Rightarrow>
               if length (combined (after_parse symbols r st)) = length symbols
               then (after_parse symbols r st)
                      \<lparr>best_quotes := combined (after_parse symbols r st), used_date := d\<rparr>
               else after_parse symbols r st))"
  by (simp add: Let_def split: sum.splits)

lemma market_loop_unroll:
  "market_loop fetch pages symbols d (mid # mids) st =
     (let st1 = market_loop fetch pages symbols d [mid] st in
      if (\<exists>b r. fetch d mid = Inr b \<and> parse_quotes pages b symbols = Inr r)
         \<and> length (combined st1) = length symbols
      then st1
      else market_loop fetch pages symbols d mids st1)"
proof (cases "fetch d mid")
  case (Inl e)
  then show ?thesis by (simp add: Let_def)
next
  case (Inr b)
  show ?thesis
  proof (cases "parse_quotes pages b symbols")
    case (Inl e)
    then show ?thesis using Inr by (simp add: Let_def)
  next
    case r: (Inr r)
    show ?thesis
      using Inr r by (simp add: Let_def)
  qed
qed

text \<open>
  C1, as amended. On fetch success the orchestrator runs QuoteParser with the full
  watchlist, on every market of every date; the symbols already resolved in the combined
  mapping are kept at the merge, and only the other symbols of the parse are added.
\<close>

theorem parser_runs_on_full_watchlist:
  "(fetch d mid = Inr b \<and> parse_quotes pages b symbols = Inr (parsed, sheet)
      \<longrightarrow> map_of (combined (market_loop fetch pages symbols d [mid] st)) k
            = (case map_of (combined st) k of Some q \<Rightarrow> Some q | None \<Rightarrow> map_of parsed k))
   \<and> market_loop fetch pages symbols d (mid # mids) st =
       (let st1 = market_loop fetch pages symbols d [mid] st in
        if (\<exists>b r. fetch d mid = Inr b \<and> parse_quotes pages b symbols = Inr r)
           \<and> length (combined st1) = length symbols
        then st1
        else market_loop fetch pages symbols d mids st1)"
proof (intro conjI impI)
  assume a: "fetch d mid = Inr b \<and> parse_quotes pages b symbols = Inr (parsed, sheet)"
  show "map_of (combined (market_loop fetch pages symbols d [mid] st)) k
            = (case map_of (combined st) k of Some q \<Rightarrow> Some q | None \<Rightarrow> map_of parsed k)"
    unfolding market_loop_one using a
    by (simp add: after_parse_fields map_of_merge_parsed)
next
  show "market_loop fetch pages symbols d (mid # mids) st =
       (let st1 = market_loop fetch pages symbols d [mid] st in
        if (\<exists>b r. fetch d mid = Inr b \<and> parse_quotes pages b symbols = Inr r)
           \<and> length (combined st1) = length symbols
        then st1
        else market_loop fetch pages symbols d mids st1)"
    by (rule market_loop_unroll)
qed

theorem parser_runs_on_full_watchlist_witness:
  "ex_fetch ''2024-03-04'' 2 = Inr ''AAA BBB 5.00''
   \<and> parse_quotes ex_pages ''AAA BBB 5.00'' ex_symbols = Inr ([(''AAA'', ex_quote ''AAA'' 5)], [])
   \<and> map_of (combined (market_loop ex_fetch ex_pages ex_symbols ''2024-03-04'' [2]
                 (init_vars\<lparr>combined := [(''AAA'', ex_quote ''AAA'' 1)]\<rparr>))) ''AAA''
        = Some (ex_quote ''AAA'' 1)
   \<and> map_of (combined (market_loop ex_fetch ex_pages ex_symbols ''2024-03-04'' [2]
                 (init_vars\<lparr>combined := [(''AAA'', ex_quote ''AAA'' 1)]\<rparr>))) ''BBB''
        = None"
proof -
  let ?st = "init_vars\<lparr>combined := [(''AAA'', ex_quote ''AAA'' 1)]\<rparr>"
  have f2: "ex_fetch ''2024-03-04'' 2 = Inr ''AAA BBB 5.00''"
    by (simp add: ex_fetch_def)
  have p2: "parse_quotes ex_pages ''AAA BBB 5.00'' ex_symbols = Inr ([(''AAA'', ex_quote ''AAA'' 5)], [])"
    by (simp add: ex_eval)
  note t = parser_runs_on_full_watchlist [where fetch = ex_fetch and d = "''2024-03-04''"
      and mid = 2 and b = "''AAA BBB 5.00''" and pages = ex_pages and symbols = ex_symbols
      and parsed = "[(''AAA'', ex_quote ''AAA'' 5)]" and sheet = "[]" and st = ?st,
      THEN conjunct1, THEN mp, OF conjI [OF f2 p2]]
  have a: "map_of (combined (market_loop ex_fetch ex_pages ex_symbols ''2024-03-04'' [2] ?st)) ''AAA''
        = Some (ex_quote ''AAA'' 1)"
    using t [of "''AAA''"] by (simp del: market_loop.simps)
  have b: "map_of (combined (market_loop ex_fetch ex_pages ex_symbols ''2024-03-04'' [2] ?st)) ''BBB''
        = None"
    using t [of "''BBB''"] by (simp del: market_loop.simps)
  show ?thesis
    using f2 p2 a b by blast
qed

text \<open>
  The parser run against the unresolved symbols only would give another result. After
  market 1 has resolved AAA, the sheet \<open>AAA BBB 5.00\<close> of market 2 resolves BBB when AAA is
  not wanted any more (\<open>spec_market_loop\<close>); the code passes the whole watchlist, the line
  anchors on AAA again, the merge drops that quote and BBB stays unresolved.
\<close>

theorem parser_not_run_on_unresolved_only:
  "unresolved ex_symbols (combined (market_loop ex_fetch ex_pages ex_symbols ''2024-03-04'' [1] init_vars))
     = [''BBB'']
   \<and> parse_quotes ex_pages ''AAA BBB 5.00'' [''BBB''] = Inr ([(''BBB'', ex_quote ''BBB'' 5)], [])
   \<and> combined (spec_market_loop ex_fetch ex_pages ex_symbols ''2024-03-04'' [1, 2] init_vars)
        = [(''AAA'', ex_quote ''AAA'' 1), (''BBB'', ex_quote ''BBB'' 5)]
   \<and> parse_quotes ex_pages ''AAA BBB 5.00'' ex_symbols = Inr ([(''AAA'', ex_quote ''AAA'' 5)], [])
   \<and> combined (market_loop ex_fetch ex_pages ex_symbols ''2024-03-04'' [1, 2] init_vars)
        = [(''AAA'', ex_quote ''AAA'' 1)]"
proof -
  have n: "length ex_symbols = 2" by (simp add: ex_symbols_def)
  have u0: "unresolved ex_symbols [] = ex_symbols"
    by (simp add: unresolved_def has_key_def)
  have u1: "unresolved ex_symbols [(''AAA'', ex_quote ''AAA'' 1)] = [''BBB'']"
    by (simp add: unresolved_def has_key_def ex_symbols_def)
  have a: "unresolved ex_symbols (combined (market_loop ex_fetch ex_pages ex_symbols ''2024-03-04'' [1] init_vars))
     = [''BBB'']"
    by (simp add: ex_eval n u1)
  have b: "parse_quotes ex_pages ''AAA BBB 5.00'' [''BBB''] = Inr ([(''BBB'', ex_quote ''BBB'' 5)], [])"
    by (simp add: parse_quotes_def ex_pages_def ex_parse_m2_unresolved)
  have c: "combined (spec_market_loop ex_fetch ex_pages ex_symbols ''2024-03-04'' [1, 2] init_vars)
        = [(''AAA'', ex_quote ''AAA'' 1), (''BBB'', ex_quote ''BBB'' 5)]"
    by (simp add: ex_eval n u0 u1 ex_parse_m2_unresolved)
  have d: "parse_quotes ex_pages ''AAA BBB 5.00'' ex_symbols = Inr ([(''AAA'', ex_quote ''AAA'' 5)], [])"
    by (simp add: ex_eval)
  have e: "combined (market_loop ex_fetch ex_pages ex_symbols ''2024-03-04'' [1, 2] init_vars)
        = [(''AAA'', ex_quote ''AAA'' 1)]"
    by (simp add: ex_eval n)
  show ?thesis
    using a b c d e by blast
qed

section \<open>The sheet-date label remembered by the orchestrator\<close>


lemma parse_text_skip_single:
  assumes "splitlines (join_lines texts) = [l0, line]"
    and "find_anchor symbols [] (line_tokens l0) = None"
    and "find_anchor symbols [] (line_tokens line) = Some (s, i)"
  shows "parse_text texts symbols
           = ([(s, \<lparr>symbol = s, last_price = line_price (line_tokens line) i,
                     as_at = parse_sheet_date (join_lines texts), source = ''JSE_DAILY_PDF''\<rparr>)],
              parse_sheet_date (join_lines texts))"
proof -
  have "line_tokens line \<noteq> []" "strip line \<noteq> []"
    using assms(3) line_tokens_blank [of line] by auto
  then show ?thesis
    using assms by (simp add: parse_text_def Let_def)
qed

lemma ex_parse_titled:
  "parse_text [''Daily Quote Sheet March 4, 2024'', ''AAA 1.00''] ex_symbols
     = ([(''AAA'', (ex_quote ''AAA'' 1)\<lparr>as_at := ''March 4, 2024''\<rparr>)], ''March 4, 2024'')"
proof -
  let ?T = "[''Daily Quote Sheet March 4, 2024'', ''AAA 1.00'']"
  have l: "splitlines (join_lines ?T) = ?T"
    by code_simp
  have a0: "find_anchor ex_symbols [] (line_tokens ''Daily Quote Sheet March 4, 2024'') = None"
    by code_simp
  have a: "find_anchor ex_symbols [] (line_tokens ''AAA 1.00'') = Some (''AAA'', 0)"
    by code_simp
  have d: "parse_sheet_date (join_lines ?T) = ''March 4, 2024''"
    by code_simp
  have n: "filter NUM_RE_match (drop (0 + 1) (line_tokens ''AAA 1.00'')) = [''1.00'']"
    by code_simp
  have v: "py_float ''1.00'' = Some 1"
    by (simp add: py_float_eval)
  have p: "line_price (line_tokens ''AAA 1.00'') 0 = Some 1"
    unfolding line_price_spec n using v by simp
  show ?thesis
    using parse_text_skip_single [OF l a0 a] d p by (simp add: ex_quote_def)
qed

lemma ex_market_newest:
  assumes "combined st = []"
  shows "market_loop ex_fetch ex_pages ex_symbols ''2024-03-05'' [1, 2] st
           = st\<lparr>errors := errors st @ [error_line ''2024-03-05'' 1
                  (Exn ''RuntimeError'' ''HTTP 404 fetching quote page'')]\<rparr>"
proof -
  have n: "length ex_symbols = 2" by (simp add: ex_symbols_def)
  show ?thesis
    using assms
    by (simp add: ex_fetch_def ex_pages_def parse_quotes_def after_parse_def ex_parse_label n)
qed

lemma ex_market_middle:
  assumes "combined st = []"
  shows "market_loop ex_fetch ex_pages ex_symbols ''2024-03-04'' [1, 2] st
           = st\<lparr>got_any := True, combined := [(''AAA'', ex_quote ''AAA'' 1)]\<rparr>"
proof -
  have n: "length ex_symbols = 2" by (simp add: ex_symbols_def)
  show ?thesis
    using assms
    by (simp add: ex_fetch_def ex_pages_def parse_quotes_def after_parse_def has_key_def
        ex_parse_m1 ex_parse_m2 n)
qed

lemma ex_run:
  "date_loop ex_fetch ex_pages ex_symbols [1, 2]
     [''2024-03-05'', ''2024-03-04'', ''2024-03-03''] init_vars
   = \<lparr>errors = [error_line ''2024-03-05'' 1 (Exn ''RuntimeError'' ''HTTP 404 fetching quote page'')],
      best_quotes = [(''AAA'', ex_quote ''AAA'' 1)], used_date = ''2024-03-04'', used_as_at = [],
      combined = [(''AAA'', ex_quote ''AAA'' 1)], got_any = True\<rparr>"
  by (simp add: ex_market_newest ex_market_middle init_vars_def Let_def del: market_loop.simps)

text \<open>
  C6, as amended. In the market loop the sheet-date label of a parse is remembered as the
  most recent known label when the parse returns at least one quote and a label that is
  not empty; after any other attempt (a failed fetch, a failed parse, a parse with no
  quote or with an empty label) the remembered label is unchanged.
\<close>

theorem label_remembered_when_quotes_parsed:
  "(fetch d mid = Inr b \<and> parse_quotes pages b symbols = Inr (parsed, sheet)
      \<longrightarrow> used_as_at (market_loop fetch pages symbols d [mid] st)
            = (if parsed \<noteq> [] \<and> sheet \<noteq> [] then sheet else used_as_at st))
   \<and> (fetch d mid = Inl e
      \<longrightarrow> used_as_at (market_loop fetch pages symbols d [mid] st) = used_as_at st)
   \<and> (fetch d mid = Inr b \<and> parse_quotes pages b symbols = Inl e
      \<longrightarrow> used_as_at (market_loop fetch pages symbols d [mid] st) = used_as_at st)"
  unfolding market_loop_one
  by (simp add: after_parse_fields)

theorem label_remembered_when_quotes_parsed_witness:
  "ex_fetch ''2024-03-04'' 1 = Inr ''AAA 1.00''
   \<and> parse_quotes ex_titled ''AAA 1.00'' ex_symbols
       = Inr ([(''AAA'', (ex_quote ''AAA'' 1)\<lparr>as_at := ''March 4, 2024''\<rparr>)], ''March 4, 2024'')
   \<and> used_as_at (market_loop ex_fetch ex_titled ex_symbols ''2024-03-04'' [1] init_vars)
       = ''March 4, 2024''
   \<and> ex_fetch ''2024-03-04'' 3 = Inl (Exn ''RuntimeError'' ''HTTP 404 fetching quote page'')
   \<and> used_as_at (market_loop ex_fetch ex_titled ex_symbols ''2024-03-04'' [3]
        (init_vars\<lparr>used_as_at := ''March 4, 2024''\<rparr>)) = ''March 4, 2024''
   \<and> parse_quotes (\<lambda>b. Inl (Exn ''PDFSyntaxError'' ''No /Root object'')) ''AAA 1.00'' ex_symbols
       = Inl (Exn ''PDFSyntaxError'' ''No /Root object'')
   \<and> used_as_at (market_loop ex_fetch (\<lambda>b. Inl (Exn ''PDFSyntaxError'' ''No /Root object''))
        ex_symbols ''2024-03-04'' [1] (init_vars\<lparr>used_as_at := ''March 4, 2024''\<rparr>))
       = ''March 4, 2024''"
proof -
  let ?bad = "\<lambda>b :: string. (Inl (Exn ''PDFSyntaxError'' ''No /Root object'') :: exn + string option list)"
  let ?q = "(ex_quote ''AAA'' 1)\<lparr>as_at := ''March 4, 2024''\<rparr>"
  let ?st = "init_vars\<lparr>used_as_at := ''March 4, 2024''\<rparr>"
  have f1: "ex_fetch ''2024-03-04'' 1 = Inr ''AAA 1.00''"
    by (simp add: ex_fetch_def)
  have f3: "ex_fetch ''2024-03-04'' 3 = Inl (Exn ''RuntimeError'' ''HTTP 404 fetching quote page'')"
    by (simp add: ex_fetch_def)
  have p1: "parse_quotes ex_titled ''AAA 1.00'' ex_symbols = Inr ([(''AAA'', ?q)], ''March 4, 2024'')"
    by (simp add: parse_quotes_def ex_titled_def ex_parse_titled)
  have pb: "parse_quotes ?bad ''AAA 1.00'' ex_symbols = Inl (Exn ''PDFSyntaxError'' ''No /Root object'')"
    by (simp add: parse_quotes_def)
  have a: "used_as_at (market_loop ex_fetch ex_titled ex_symbols ''2024-03-04'' [1] init_vars)
       = ''March 4, 2024''"
    using label_remembered_when_quotes_parsed [where fetch = ex_fetch and d = "''2024-03-04''"
        and mid = 1 and b = "''AAA 1.00''" and pages = ex_titled and symbols = ex_symbols
        and parsed = "[(''AAA'', ?q)]" and sheet = "''March 4, 2024''" and st = init_vars,
        THEN conjunct1, THEN mp, OF conjI [OF f1 p1]]
    by (simp del: market_loop.simps)
  have b: "used_as_at (market_loop ex_fetch ex_titled ex_symbols ''2024-03-04'' [3] ?st)
       = ''March 4, 2024''"
    using label_remembered_when_quotes_parsed [where fetch = ex_fetch and d = "''2024-03-04''"
        and mid = 3 and pages = ex_titled and symbols = ex_symbols and st = ?st
        and e = "Exn ''RuntimeError'' ''HTTP 404 fetching quote page''",
        THEN conjunct2, THEN conjunct1, THEN mp, OF f3]
    by (simp del: market_loop.simps)
  have c: "used_as_at (market_loop ex_fetch ?bad ex_symbols ''2024-03-04'' [1] ?st)
       = ''March 4, 2024''"
    using label_remembered_when_quotes_parsed [where fetch = ex_fetch and d = "''2024-03-04''"
        and mid = 1 and b = "''AAA 1.00''" and pages = ?bad and symbols = ex_symbols and st = ?st
        and e = "Exn ''PDFSyntaxError'' ''No /Root object''",
        THEN conjunct2, THEN conjunct2, THEN mp, OF conjI [OF f1 pb]]
    by (simp del: market_loop.simps)
  show ?thesis
    using f1 p1 a f3 b pb c by blast
qed

text \<open>
  A sheet with a date label and no wanted symbol: the parse returns the label
  \<open>March 5, 2024\<close> and no quote, and the label is not remembered. The records of the run
  are stamped with the date used, not with that label.
\<close>

theorem label_of_sheet_without_quotes_is_dropped:
  "ex_fetch ''2024-03-05'' 2 = Inr ''Sheet for March 5, 2024''
   \<and> parse_quotes ex_pages ''Sheet for March 5, 2024'' ex_symbols = Inr ([], ''March 5, 2024'')
   \<and> used_as_at (market_loop ex_fetch ex_pages ex_symbols ''2024-03-05'' [2] init_vars) = []
   \<and> used_as_at (date_loop ex_fetch ex_pages ex_symbols [1, 2]
        [''2024-03-05'', ''2024-03-04'', ''2024-03-03''] init_vars) = []
   \<and> map r_as_at (map (make_row (date_loop ex_fetch ex_pages ex_symbols [1, 2]
        [''2024-03-05'', ''2024-03-04'', ''2024-03-03''] init_vars)) ex_symbols)
       = [''2024-03-04'', ''2024-03-04'']"
proof -
  have n: "length ex_symbols = 2" by (simp add: ex_symbols_def)
  have f: "ex_fetch ''2024-03-05'' 2 = Inr ''Sheet for March 5, 2024''"
    by (simp add: ex_fetch_def)
  have p: "parse_quotes ex_pages ''Sheet for March 5, 2024'' ex_symbols = Inr ([], ''March 5, 2024'')"
    by (simp add: ex_eval)
  have a: "used_as_at (market_loop ex_fetch ex_pages ex_symbols ''2024-03-05'' [2] init_vars) = []"
    by (simp add: ex_eval n)
  have b: "used_as_at (date_loop ex_fetch ex_pages ex_symbols [1, 2]
        [''2024-03-05'', ''2024-03-04'', ''2024-03-03''] init_vars) = []"
    unfolding ex_run by simp
  have c: "map r_as_at (map (make_row (date_loop ex_fetch ex_pages ex_symbols [1, 2]
        [''2024-03-05'', ''2024-03-04'', ''2024-03-03''] init_vars)) ex_symbols)
       = [''2024-03-04'', ''2024-03-04'']"
    unfolding ex_run by (simp add: make_row_def ex_symbols_def ex_quote_def)
  show ?thesis
    using f p a b c by blast
qed

section \<open>Output records and the outcome of the process\<close>


lemma date_loop_exhausted_date:
  assumes "\<forall>d\<in>set dates. date_combined fetch pages symbols mids d = []" "best_quotes st = []"
    "symbols \<noteq> []"
  shows "used_date (date_loop fetch pages symbols mids dates st) = used_date st"
  using assms
proof (induction dates arbitrary: st)
  case Nil
  then show ?case by simp
next
  case (Cons d older)
  let ?st0 = "st\<lparr>combined := [], got_any := False\<rparr>"
  let ?st1 = "market_loop fetch pages symbols d mids ?st0"
  have e: "date_combined fetch pages symbols mids d = []"
    using Cons.prems(1) by simp
  then have c: "combined ?st1 = []"
    by (simp add: date_combined_eq)
  have s: "date_loop fetch pages symbols mids (d # older) st
              = date_loop fetch pages symbols mids older ?st1"
    using date_loop_skip(1) [OF Cons.prems(2) e] by simp
  have b: "best_quotes ?st1 = []"
    using date_loop_skip(2) [OF Cons.prems(2) e] .
  have u: "used_date ?st1 = used_date st"
    using market_loop_best [of fetch pages symbols d mids ?st0] c Cons.prems(3) by auto
  have ih: "used_date (date_loop fetch pages symbols mids older ?st1) = used_date ?st1"
    by (rule Cons.IH) (use Cons.prems b in simp_all)
  show ?case
    unfolding s using ih u by simp
qed

lemma make_row_exhausted:
  assumes "best_quotes st = []" "used_as_at st = []" "used_date st = []"
  shows "make_row st s = empty_row s"
  using assms by (simp add: make_row_def empty_row_def)

lemma read_watchlist_sorted: "sorted (read_watchlist file) \<and> distinct (read_watchlist file)"
  by (cases "file") (simp_all add: read_watchlist_def)

lemma main_rows:
  assumes "main w = Returned c (Some rows) err"
  shows "c = 0 \<and> read_watchlist (watchlist_file w) \<noteq> []
         \<and> (\<exists>lookback dates.
               py_int (getenv (JSE_LOOKBACK_DAYS w) ''10'') = Some lookback
               \<and> latest_trading_date_iso (isoformat w) (today w) lookback = Inr dates
               \<and> rows = map (make_row (retrieve w (read_watchlist (watchlist_file w))
                                          (market_ids_of (JSE_MARKETS w)) dates))
                             (read_watchlist (watchlist_file w)))"
  using assms
  by (auto simp: main_def Let_def split: if_splits option.splits sum.splits)

text \<open>
  C7. The output has one record for each symbol of the watchlist, in its sorted order. The
  \<open>as_at\<close> field is the label of the resolved quote when there is one and it is not empty,
  else the last known sheet-date label when that is not empty, else the date that was
  used; the \<open>source\<close> field is the fixed tag whether the symbol is resolved or not. When no
  candidate date yields a hit, the final mapping is empty and every record has an empty
  price and an empty \<open>as_at\<close>, with the source tag.
\<close>

theorem output_records:
  "(r_symbol (make_row st s) = s \<and> r_source (make_row st s) = ''JSE_DAILY_PDF''
    \<and> r_last_price (make_row st s)
        = (case map_of (best_quotes st) s of None \<Rightarrow> None | Some q \<Rightarrow> last_price q)
    \<and> r_as_at (make_row st s)
        = (case map_of (best_quotes st) s of
             Some q \<Rightarrow> if as_at q \<noteq> [] then as_at q
                       else if used_as_at st \<noteq> [] then used_as_at st else used_date st
           | None \<Rightarrow> if used_as_at st \<noteq> [] then used_as_at st else used_date st))
   \<and> (main w = Returned c (Some rows) err
      \<longrightarrow> map r_symbol rows = read_watchlist (watchlist_file w)
          \<and> sorted (read_watchlist (watchlist_file w))
          \<and> distinct (read_watchlist (watchlist_file w))
          \<and> map r_source rows = map (\<lambda>s. ''JSE_DAILY_PDF'') (read_watchlist (watchlist_file w))
          \<and> (\<exists>lookback dates.
                py_int (getenv (JSE_LOOKBACK_DAYS w) ''10'') = Some lookback
                \<and> latest_trading_date_iso (isoformat w) (today w) lookback = Inr dates
                \<and> rows = map (make_row (retrieve w (read_watchlist (watchlist_file w))
                                           (market_ids_of (JSE_MARKETS w)) dates))
                              (read_watchlist (watchlist_file w))))
   \<and> (symbols \<noteq> []
       \<and> (\<forall>d\<in>set dates. date_combined (fetch_pdf w) (pdf_pages w) symbols mids d = [])
      \<longrightarrow> best_quotes (retrieve w symbols mids dates) = []
          \<and> map (make_row (retrieve w symbols mids dates)) symbols = map empty_row symbols)"
proof (intro conjI impI)
  show "r_symbol (make_row st s) = s" "r_source (make_row st s) = ''JSE_DAILY_PDF''"
    by (simp_all add: make_row_def Let_def)
  show "r_last_price (make_row st s)
        = (case map_of (best_quotes st) s of None \<Rightarrow> None | Some q \<Rightarrow> last_price q)"
    by (simp add: make_row_def Let_def)
  show "r_as_at (make_row st s)
        = (case map_of (best_quotes st) s of
             Some q \<Rightarrow> if as_at q \<noteq> [] then as_at q
                       else if used_as_at st \<noteq> [] then used_as_at st else used_date st
           | None \<Rightarrow> if used_as_at st \<noteq> [] then used_as_at st else used_date st)"
    by (simp add: make_row_def Let_def split: option.splits)
next
  assume m: "main w = Returned c (Some rows) err"
  obtain lookback dates where
    l: "py_int (getenv (JSE_LOOKBACK_DAYS w) ''10'') = Some lookback"
    and d: "latest_trading_date_iso (isoformat w) (today w) lookback = Inr dates"
    and r: "rows = map (make_row (retrieve w (read_watchlist (watchlist_file w))
                                          (market_ids_of (JSE_MARKETS w)) dates))
                             (read_watchlist (watchlist_file w))"
    using main_rows [OF m] by blast
  show "map r_symbol rows = read_watchlist (watchlist_file w)"
    unfolding r by (simp add: make_row_def Let_def comp_def)
  show "map r_source rows = map (\<lambda>s. ''JSE_DAILY_PDF'') (read_watchlist (watchlist_file w))"
    unfolding r by (simp add: make_row_def Let_def comp_def)
  show "sorted (read_watchlist (watchlist_file w))" "distinct (read_watchlist (watchlist_file w))"
    using read_watchlist_sorted by simp_all
  show "\<exists>lookback dates.
                py_int (getenv (JSE_LOOKBACK_DAYS w) ''10'') = Some lookback
                \<and> latest_trading_date_iso (isoformat w) (today w) lookback = Inr dates
                \<and> rows = map (make_row (retrieve w (read_watchlist (watchlist_file w))
                                           (market_ids_of (JSE_MARKETS w)) dates))
                              (read_watchlist (watchlist_file w))"
    using l d r by blast
next
  assume a: "symbols \<noteq> []
       \<and> (\<forall>d\<in>set dates. date_combined (fetch_pdf w) (pdf_pages w) symbols mids d = [])"
  have i: "best_quotes init_vars = []" "used_as_at init_vars = []" "used_date init_vars = []"
    by (simp_all add: init_vars_def)
  have e: "best_quotes (retrieve w symbols mids dates) = []"
    "used_as_at (retrieve w symbols mids dates) = []"
    using date_loop_exhausted [of dates "fetch_pdf w" "pdf_pages w" symbols mids init_vars] a i
    by (simp_all add: retrieve_def)
  have u: "used_date (retrieve w symbols mids dates) = []"
    using date_loop_exhausted_date [of dates "fetch_pdf w" "pdf_pages w" symbols mids init_vars] a i
    by (simp add: retrieve_def)
  show "best_quotes (retrieve w symbols mids dates) = []"
    by (rule e)
  show "map (make_row (retrieve w symbols mids dates)) symbols = map empty_row symbols"
    using make_row_exhausted [OF e u] by simp
qed


lemma ex_world_config:
  "read_watchlist (watchlist_file ex_world) = ex_symbols"
  "market_ids_of (JSE_MARKETS ex_world) = [1, 2]"
  "py_int (getenv (JSE_LOOKBACK_DAYS ex_world) ''10'') = Some 3"
  "latest_trading_date_iso (isoformat ex_world) (today ex_world) 3
     = Inr [''2024-03-05'', ''2024-03-04'', ''2024-03-03'']"
proof -
  have "read_watchlist (Some ''bbb\<newline># watchlist\<newline>AAA\<newline>aaa'') = [''AAA'', ''BBB'']"
    by code_simp
  then show "read_watchlist (watchlist_file ex_world) = ex_symbols"
    by (simp add: ex_world_def ex_symbols_def)
  have "market_ids_of (Some ''1,2'') = [1, 2]"
    by code_simp
  then show "market_ids_of (JSE_MARKETS ex_world) = [1, 2]"
    by (simp add: ex_world_def)
  have "py_int ''3'' = Some 3"
    by code_simp
  then show "py_int (getenv (JSE_LOOKBACK_DAYS ex_world) ''10'') = Some 3"
    by (simp add: ex_world_def getenv_def)
  have "[0 ..< nat 3] = [0, 1, 2]"
    by (simp add: upt_rec)
  then show "latest_trading_date_iso (isoformat ex_world) (today ex_world) 3
     = Inr [''2024-03-05'', ''2024-03-04'', ''2024-03-03'']"
    by (simp add: latest_trading_date_iso_def ex_world_def)
qed

lemma ex_main:
  "main ex_world
     = Returned 0
         (Some [\<lparr>r_symbol = ''AAA'', r_last_price = Some 1, r_as_at = ''2024-03-04'',
                  r_source = ''JSE_DAILY_PDF''\<rparr>,
                \<lparr>r_symbol = ''BBB'', r_last_price = None, r_as_at = ''2024-03-04'',
                  r_source = ''JSE_DAILY_PDF''\<rparr>])
         []"
proof -
  have r: "retrieve ex_world ex_symbols [1, 2] [''2024-03-05'', ''2024-03-04'', ''2024-03-03'']
     = \<lparr>errors = [error_line ''2024-03-05'' 1 (Exn ''RuntimeError'' ''HTTP 404 fetching quote page'')],
      best_quotes = [(''AAA'', ex_quote ''AAA'' 1)], used_date = ''2024-03-04'', used_as_at = [],
      combined = [(''AAA'', ex_quote ''AAA'' 1)], got_any = True\<rparr>"
    using ex_run by (simp add: retrieve_def ex_world_def)
  have d: "debug_lines (DEBUG ex_world) e = []" for e
    by (simp add: debug_lines_def ex_world_def getenv_def)
  have ne: "ex_symbols \<noteq> []"
    by (simp add: ex_symbols_def)
  have "main ex_world = Returned 0
     (Some (map (make_row (retrieve ex_world ex_symbols [1, 2]
        [''2024-03-05'', ''2024-03-04'', ''2024-03-03''])) ex_symbols)) []"
    by (simp add: main_def ex_world_config ne d Let_def)
  then show ?thesis
    unfolding r by (simp add: make_row_def ex_symbols_def ex_quote_def)
qed

theorem output_records_witness:
  "main ex_world
     = Returned 0
         (Some [\<lparr>r_symbol = ''AAA'', r_last_price = Some 1, r_as_at = ''2024-03-04'',
                  r_source = ''JSE_DAILY_PDF''\<rparr>,
                \<lparr>r_symbol = ''BBB'', r_last_price = None, r_as_at = ''2024-03-04'',
                  r_source = ''JSE_DAILY_PDF''\<rparr>])
         []
   \<and> read_watchlist (watchlist_file ex_world) = [''AAA'', ''BBB'']
   \<and> sorted (read_watchlist (watchlist_file ex_world))
   \<and> ex_symbols \<noteq> []
   \<and> date_combined (\<lambda>d m. Inl (Exn ''RuntimeError'' ''HTTP 503 fetching quote page'')) ex_pages
        ex_symbols [1, 2] ''2024-03-05'' = []
   \<and> best_quotes (retrieve (ex_world\<lparr>fetch_pdf :=
          \<lambda>d m. Inl (Exn ''RuntimeError'' ''HTTP 503 fetching quote page'')\<rparr>)
        ex_symbols [1, 2] [''2024-03-05'', ''2024-03-04'', ''2024-03-03'']) = []
   \<and> map (make_row (retrieve (ex_world\<lparr>fetch_pdf :=
          \<lambda>d m. Inl (Exn ''RuntimeError'' ''HTTP 503 fetching quote page'')\<rparr>)
        ex_symbols [1, 2] [''2024-03-05'', ''2024-03-04'', ''2024-03-03''])) ex_symbols
       = [empty_row ''AAA'', empty_row ''BBB'']"
proof -
  let ?down = "\<lambda>(d :: string) (m :: int).
    (Inl (Exn ''RuntimeError'' ''HTTP 503 fetching quote page'') :: exn + string)"
  let ?w = "ex_world\<lparr>fetch_pdf := ?down\<rparr>"
  let ?dates = "[''2024-03-05'', ''2024-03-04'', ''2024-03-03'']"
  note t = output_records [where w = ex_world and c = 0 and err = "[]"
      and rows = "[\<lparr>r_symbol = ''AAA'', r_last_price = Some 1, r_as_at = ''2024-03-04'',
                  r_source = ''JSE_DAILY_PDF''\<rparr>,
                \<lparr>r_symbol = ''BBB'', r_last_price = None, r_as_at = ''2024-03-04'',
                  r_source = ''JSE_DAILY_PDF''\<rparr>]"]
  note a = t [THEN conjunct2, THEN conjunct1, THEN mp, OF ex_main]
  have w: "read_watchlist (watchlist_file ex_world) = [''AAA'', ''BBB'']"
    using a [THEN conjunct1] by simp
  have s: "sorted (read_watchlist (watchlist_file ex_world))"
    using a [THEN conjunct2, THEN conjunct1] .
  have ne: "ex_symbols \<noteq> []"
    by (simp add: ex_symbols_def)
  have dc: "date_combined ?down ex_pages ex_symbols [1, 2] d = []" for d
    by (simp add: date_combined_def init_vars_def)
  have hyp: "ex_symbols \<noteq> []
     \<and> (\<forall>d\<in>set ?dates. date_combined (fetch_pdf ?w) (pdf_pages ?w) ex_symbols [1, 2] d = [])"
    using ne dc by (simp add: ex_world_def)
  note x = output_records [where w = ?w and symbols = ex_symbols and mids = "[1, 2]"
      and dates = ?dates, THEN conjunct2, THEN conjunct2, THEN mp, OF hyp]
  have x2: "map (make_row (retrieve ?w ex_symbols [1, 2] ?dates)) ex_symbols
       = [empty_row ''AAA'', empty_row ''BBB'']"
    using x [THEN conjunct2] by (simp add: ex_symbols_def)
  show ?thesis
    using ex_main w s ne dc [of "''2024-03-05''"] x [THEN conjunct1] x2 by blast
qed

text \<open>
  C8. A fault of a fetch or of a parse is caught and appended to the diagnostics, and the
  loop goes on; the process returns the failure code 2 only when the watchlist is empty and
  success otherwise. The code does so for every fault of the retrieval, but not for the
  lookback setting: where a market identifier that is no integer is skipped, a lookback
  that is no integer leaves \<open>main\<close> as an uncaught ValueError, before any retrieval and with
  no output written.
\<close>

theorem lookback_not_an_integer_aborts:
  "read_watchlist (watchlist_file (ex_world\<lparr>JSE_LOOKBACK_DAYS := Some ''ten''\<rparr>)) = [''AAA'', ''BBB'']
   \<and> main (ex_world\<lparr>JSE_LOOKBACK_DAYS := Some ''ten''\<rparr>)
       = Uncaught (Exn ''ValueError'' ''invalid literal for int() with base 10'')
   \<and> market_ids_of (Some ''ten,2'') = [2]
   \<and> main ex_world
     = Returned 0
         (Some [\<lparr>r_symbol = ''AAA'', r_last_price = Some 1, r_as_at = ''2024-03-04'',
                  r_source = ''JSE_DAILY_PDF''\<rparr>,
                \<lparr>r_symbol = ''BBB'', r_last_price = None, r_as_at = ''2024-03-04'',
                  r_source = ''JSE_DAILY_PDF''\<rparr>])
         []"
proof -
  let ?w = "ex_world\<lparr>JSE_LOOKBACK_DAYS := Some ''ten''\<rparr>"
  have w: "read_watchlist (watchlist_file ?w) = ex_symbols"
    using ex_world_config(1) by simp
  have i: "py_int ''ten'' = None"
    by code_simp
  have m: "market_ids_of (Some ''ten,2'') = [2]"
    by code_simp
  have "main ?w = Uncaught (Exn ''ValueError'' ''invalid literal for int() with base 10'')"
    by (simp add: main_def ex_world_config(1) i getenv_def ex_symbols_def Let_def)
  then show ?thesis
    using w m ex_main by (simp add: ex_symbols_def)
qed

lemma main_outcome:
  "main w =
     (if read_watchlist (watchlist_file w) = [] then Returned 2 None [''No symbols in watchlist.txt'']
      else case py_int (getenv (JSE_LOOKBACK_DAYS w) ''10'') of
        None \<Rightarrow> Uncaught (Exn ''ValueError'' ''invalid literal for int() with base 10'')
      | Some n \<Rightarrow>
          if n > today w then Uncaught (Exn ''OverflowError'' ''date value out of range'')
          else Returned 0
            (Some (map (make_row (retrieve w (read_watchlist (watchlist_file w))
                (market_ids_of (JSE_MARKETS w))
                (map (\<lambda>d. isoformat w (today w - int d)) [0 ..< nat n])))
              (read_watchlist (watchlist_file w))))
            (debug_lines (DEBUG w) (errors (retrieve w (read_watchlist (watchlist_file w))
                (market_ids_of (JSE_MARKETS w))
                (map (\<lambda>d. isoformat w (today w - int d)) [0 ..< nat n])))))"
  by (simp add: main_def latest_trading_date_iso_def Let_def split: option.splits)

lemma market_loop_fault_recorded:
  "fetch d mid = Inl e \<or> (\<exists>b. fetch d mid = Inr b \<and> parse_quotes pages b symbols = Inl e)
     \<Longrightarrow> market_loop fetch pages symbols d (mid # mids) st
         = market_loop fetch pages symbols d mids (st\<lparr>errors := errors st @ [error_line d mid e]\<rparr>)"
  by auto

section \<open>Watchlist entries that no token can match\<close>


lemma re_split_ws_no_space:
  "(\<forall>c\<in>set cur. \<not> is_space c) \<Longrightarrow> p \<in> set (re_split_ws cur s) \<Longrightarrow> c \<in> set p \<Longrightarrow> \<not> is_space c"
proof (induction cur s arbitrary: p rule: re_split_ws.induct)
  case (1 cur)
  then show ?case by auto
next
  case (2 cur x xs)
  show ?case
  proof (cases "is_space x")
    case False
    then show ?thesis
      using 2 by auto
  next
    case True
    show ?thesis
    proof (cases xs)
      case Nil
      then show ?thesis using True 2 by auto
    next
      case (Cons d ds)
      then show ?thesis
        using True 2 by (auto split: if_splits)
    qed
  qed
qed

lemma line_tokens_no_space:
  "t \<in> set (line_tokens line) \<Longrightarrow> t \<noteq> [] \<and> (\<forall>c\<in>set t. \<not> is_space c)"
  using re_split_ws_no_space [of "[]" t "strip line"]
  by (auto simp: line_tokens_def)

lemma upper_char_space:
  assumes "is_space (upper_char c)"
  shows "is_space c"
proof (cases "map_of (zip lower_letters upper_letters) c")
  case None
  then show ?thesis using assms by (simp add: upper_char_def)
next
  case (Some u)
  then have "u \<in> set upper_letters"
    by (meson in_set_zipE map_of_SomeD)
  then have "\<not> is_space u"
    by (auto simp: upper_letters_def is_space_def)
  then show ?thesis
    using Some assms by (simp add: upper_char_def)
qed

lemma set_dropWhile_rev: "set (rev (dropWhile P (rev xs))) \<subseteq> set xs"
  using set_dropWhileD by fastforce

lemma norm_sym_no_space:
  assumes "c \<in> set (norm_sym t)" "\<forall>c\<in>set t. \<not> is_space c"
  shows "\<not> is_space c"
proof -
  have "c \<in> set (upper (strip t))"
    using assms(1) set_dropWhile_rev [of "\<lambda>c. c \<in> set ''.,;''" "upper (strip t)"]
    unfolding norm_sym_def rstrip_chars_def by blast
  then obtain c0 where c0: "c0 \<in> set (strip t)" "c = upper_char c0"
    by (auto simp: upper_def)
  have "set (strip t) \<subseteq> set t"
    unfolding strip_def
    using set_dropWhile_rev [of is_space "dropWhile is_space t"] set_dropWhileD [of _ is_space t]
    by blast
  then have "\<not> is_space c0"
    using c0(1) assms(2) by blast
  then show ?thesis
    using c0(2) upper_char_space by blast
qed

lemma rstrip_chars_last:
  "rstrip_chars cs s \<noteq> [] \<Longrightarrow> last (rstrip_chars cs s) \<notin> set cs"
proof -
  assume a: "rstrip_chars cs s \<noteq> []"
  then have ne: "dropWhile (\<lambda>c. c \<in> set cs) (rev s) \<noteq> []"
    by (simp add: rstrip_chars_def)
  have "last (rstrip_chars cs s) = hd (dropWhile (\<lambda>c. c \<in> set cs) (rev s))"
    using ne by (simp add: rstrip_chars_def last_rev)
  then show ?thesis
    using hd_dropWhile [OF ne] by simp
qed

lemma norm_sym_last: "norm_sym t \<noteq> [] \<Longrightarrow> last (norm_sym t) \<notin> set ''.,;''"
  unfolding norm_sym_def by (rule rstrip_chars_last)

lemma parse_lines_keys:
  "has_key k (parse_lines want sheet lines out)
     \<Longrightarrow> has_key k out \<or> (\<exists>line\<in>set lines. \<exists>t\<in>set (line_tokens line). k = norm_sym t)"
proof (induction lines arbitrary: out)
  case Nil
  then show ?case by simp
next
  case (Cons line rest)
  show ?case
  proof (cases "find_anchor want out (line_tokens line)")
    case None
    then have "parse_lines want sheet (line # rest) out = parse_lines want sheet rest out"
      by (rule parse_lines_skips)
    then show ?thesis
      using Cons by auto
  next
    case (Some a)
    obtain s i where a: "a = (s, i)" by (cases a)
    have si: "i < length (line_tokens line)" "s = norm_sym (line_tokens line ! i)"
      using Some a by (simp_all add: find_anchor_Some_iff)
    then have tok: "\<exists>t\<in>set (line_tokens line). s = norm_sym t"
      using nth_mem by blast
    define q' where "q' = \<lparr>symbol = s, last_price = line_price (line_tokens line) i,
                             as_at = sheet, source = ''JSE_DAILY_PDF''\<rparr>"
    have nonempty: "line_tokens line \<noteq> []" "strip line \<noteq> []"
      using Some line_tokens_blank [of line] by auto
    have step: "parse_lines want sheet (line # rest) out
                  = (if length (AList.update s q' out) = length (remdups want)
                     then AList.update s q' out
                     else parse_lines want sheet rest (AList.update s q' out))"
      using Some a nonempty by (simp add: Let_def q'_def)
    have "has_key k (AList.update s q' out)
            \<or> (\<exists>line\<in>set rest. \<exists>t\<in>set (line_tokens line). k = norm_sym t)"
      using Cons.prems Cons.IH [of "AList.update s q' out"] unfolding step
      by (auto split: if_splits)
    then show ?thesis
      using tok by (auto simp: has_key_update)
  qed
qed

lemma parse_text_keys:
  assumes "map_of (fst (parse_text texts symbols)) k \<noteq> None"
  shows "(k = [] \<or> last k \<notin> set ''.,;'') \<and> (\<forall>c\<in>set k. \<not> is_space c)"
proof -
  have "has_key k (parse_lines symbols (parse_sheet_date (join_lines texts))
          (splitlines (join_lines texts)) [])"
    using assms by (simp add: parse_text_def Let_def has_key_def)
  then obtain line t where t: "t \<in> set (line_tokens line)" "k = norm_sym t"
    using parse_lines_keys by (fastforce simp: has_key_def)
  have ns: "\<forall>c\<in>set t. \<not> is_space c"
    using line_tokens_no_space [OF t(1)] by simp
  show ?thesis
    using norm_sym_last [of t] norm_sym_no_space [OF _ ns] t(2) by blast
qed

lemma read_watchlist_member:
  assumes "l \<in> set (splitlines content)" "strip l \<noteq> []" "take 1 (strip l) \<noteq> ''#''"
  shows "upper (strip l) \<in> set (read_watchlist (Some content))"
  using assms by (auto simp: read_watchlist_def)

text \<open>
  C10. A watchlist entry is a line of the file trimmed and put in upper case: its trailing
  punctuation stays. A token of a document is compared after its trailing periods, commas
  and semicolons are stripped. So an entry that ends in one of these, or that contains
  white space, is the key of no mapping that the parser returns.
\<close>

theorem punctuated_entry_never_resolved:
  "(l \<in> set (splitlines content) \<and> strip l \<noteq> [] \<and> take 1 (strip l) \<noteq> ''#''
      \<longrightarrow> upper (strip l) \<in> set (read_watchlist (Some content)))
   \<and> read_watchlist (Some ''bns,'') = [''BNS,'']
   \<and> norm_sym ''bns,'' = ''BNS''
   \<and> ((s \<noteq> [] \<and> last s \<in> set ''.,;'') \<or> (\<exists>c\<in>set s. is_space c)
      \<longrightarrow> map_of (fst (parse_text texts symbols)) s = None)
   \<and> (parse_quotes pages b symbols = Inr (out, sheet)
       \<and> ((s \<noteq> [] \<and> last s \<in> set ''.,;'') \<or> (\<exists>c\<in>set s. is_space c))
      \<longrightarrow> map_of out s = None)"
proof (intro conjI impI)
  assume "l \<in> set (splitlines content) \<and> strip l \<noteq> [] \<and> take 1 (strip l) \<noteq> ''#''"
  then show "upper (strip l) \<in> set (read_watchlist (Some content))"
    using read_watchlist_member by blast
next
  show "read_watchlist (Some ''bns,'') = [''BNS,'']"
    by code_simp
next
  show "norm_sym ''bns,'' = ''BNS''"
    by code_simp
next
  assume "(s \<noteq> [] \<and> last s \<in> set ''.,;'') \<or> (\<exists>c\<in>set s. is_space c)"
  then show "map_of (fst (parse_text texts symbols)) s = None"
    using parse_text_keys [of texts symbols s] by blast
next
  assume a: "parse_quotes pages b symbols = Inr (out, sheet)
       \<and> ((s \<noteq> [] \<and> last s \<in> set ''.,;'') \<or> (\<exists>c\<in>set s. is_space c))"
  obtain ps where "pages b = Inr ps"
    using a by (cases "pages b") (simp_all add: parse_quotes_def)
  then have "out = fst (parse_text (map (\<lambda>p. case p of None \<Rightarrow> [] | Some t \<Rightarrow> t) ps) symbols)"
    using a by (simp add: parse_quotes_def)
  then show "map_of out s = None"
    using a parse_text_keys [of _ symbols s] by blast
qed

theorem punctuated_entry_never_resolved_witness:
  "''bns,'' \<in> set (splitlines ''bns,\<newline>n c b'')
   \<and> strip ''bns,'' \<noteq> [] \<and> take 1 (strip ''bns,'') \<noteq> ''#''
   \<and> read_watchlist (Some ''bns,\<newline>n c b'') = [''BNS,'', ''N C B'']
   \<and> last ''BNS,'' \<in> set ''.,;''
   \<and> map_of (fst (parse_text [''BNS, 10.00 11.00'', ''N C B 3.00''] [''BNS,'', ''N C B''])) ''BNS,'' = None
   \<and> is_space (''N C B'' ! 1)
   \<and> map_of (fst (parse_text [''BNS, 10.00 11.00'', ''N C B 3.00''] [''BNS,'', ''N C B''])) ''N C B'' = None
   \<and> parse_quotes ex_pages ''BNS, 10.00 11.00'' [''BNS,''] = Inr ([], [])"
proof -
  let ?T = "[''BNS, 10.00 11.00'', ''N C B 3.00'']"
  let ?S = "[''BNS,'', ''N C B'']"
  have m: "''bns,'' \<in> set (splitlines ''bns,\<newline>n c b'')"
    by code_simp
  have s: "strip ''bns,'' \<noteq> []" "take 1 (strip ''bns,'') \<noteq> ''#''"
    by code_simp+
  have r: "read_watchlist (Some ''bns,\<newline>n c b'') = [''BNS,'', ''N C B'']"
    by code_simp
  have u: "upper (strip ''bns,'') = ''BNS,''"
    by code_simp
  have mem: "upper (strip ''bns,'') \<in> set (read_watchlist (Some ''bns,\<newline>n c b''))"
    using punctuated_entry_never_resolved [where l = "''bns,''" and content = "''bns,\<newline>n c b''",
        THEN conjunct1] m s by blast
  have l: "last ''BNS,'' \<in> set ''.,;''"
    by simp
  have sp: "is_space (''N C B'' ! 1)"
    by (simp add: is_space_def)
  have a: "map_of (fst (parse_text ?T ?S)) ''BNS,'' = None"
    using punctuated_entry_never_resolved [where s = "''BNS,''" and texts = ?T and symbols = ?S,
        THEN conjunct2, THEN conjunct2, THEN conjunct2, THEN conjunct1] l by simp
  have b: "map_of (fst (parse_text ?T ?S)) ''N C B'' = None"
    using punctuated_entry_never_resolved [where s = "''N C B''" and texts = ?T and symbols = ?S,
        THEN conjunct2, THEN conjunct2, THEN conjunct2, THEN conjunct1] sp
    by (simp add: is_space_def)
  have l1: "splitlines (join_lines [''BNS, 10.00 11.00'']) = [''BNS, 10.00 11.00'']"
    by code_simp
  have a1: "find_anchor [''BNS,''] [] (line_tokens ''BNS, 10.00 11.00'') = None"
    by code_simp
  have d1: "parse_sheet_date (join_lines [''BNS, 10.00 11.00'']) = []"
    by code_simp
  have p: "parse_quotes ex_pages ''BNS, 10.00 11.00'' [''BNS,''] = Inr ([], [])"
    using parse_text_single_none [OF l1 a1] d1 by (simp add: parse_quotes_def ex_pages_def)
  show ?thesis
    using m s r l a sp b p by blast
qed

section \<open>The date pattern\<close>


lemma first_some_Some:
  "first_some g xs = Some y \<Longrightarrow> \<exists>x\<in>set xs. g x = Some y"
  by (induction xs) (auto split: option.splits)

lemma first_some_not_None:
  "x \<in> set xs \<Longrightarrow> g x \<noteq> None \<Longrightarrow> first_some g xs \<noteq> None"
  by (induction xs) (auto split: option.splits)

lemma match_day_Some:
  assumes "match_day r = Some (day, r2)"
  shows "r = day @ r2 \<and> (\<exists>dd. day = dd @ '','' \<and> (length dd = 1 \<or> length dd = 2)
           \<and> list_all is_digit dd)"
  using assms
proof (cases r rule: match_day.cases)
  case (1 d1 d2 c r')
  then show ?thesis
    using assms
    by (auto split: if_splits intro: exI [of _ "[d1, d2]"] exI [of _ "[d1]"])
next
  case (2 d1 c)
  then show ?thesis
    using assms by (auto split: if_splits intro: exI [of _ "[d1]"])
qed (use assms in simp_all)

lemma match_day_complete:
  assumes "length dd = 1 \<or> length dd = 2" "list_all is_digit dd" "rest \<noteq> []"
  shows "match_day (dd @ '','' @ rest) = Some (dd @ '','', rest)"
proof -
  obtain c r where rest: "rest = c # r"
    using assms(3) by (cases rest) auto
  have nd: "\<not> is_digit CHR '',''"
    by (simp add: is_digit_def)
  consider d1 where "dd = [d1]" | d1 d2 where "dd = [d1, d2]"
    using assms(1) by (cases dd; cases "tl dd") auto
  then show ?thesis
  proof cases
    case 1
    then show ?thesis using assms(2) rest nd by simp
  next
    case 2
    then show ?thesis using assms(2) rest by simp
  qed
qed

lemma match_after_month_Some:
  assumes "match_after_month r = Some t"
  shows "\<exists>ws1 dd ws2 y post. r = t @ post \<and> t = ws1 @ dd @ '','' @ ws2 @ y
           \<and> ws1 \<noteq> [] \<and> list_all is_space ws1
           \<and> (length dd = 1 \<or> length dd = 2) \<and> list_all is_digit dd
           \<and> ws2 \<noteq> [] \<and> list_all is_space ws2
           \<and> length y = 4 \<and> list_all is_digit y
           \<and> word_boundary (Some (last y)) (next_char post)"
proof -
  define ws1 where "ws1 = takeWhile is_space r"
  define r1 where "r1 = dropWhile is_space r"
  have r: "r = ws1 @ r1" by (simp add: ws1_def r1_def)
  have w1: "ws1 \<noteq> []" "list_all is_space ws1"
    using assms by (auto simp: match_after_month_def ws1_def Let_def list_all_iff
        dest: set_takeWhileD split: if_splits)
  obtain day r2 where md: "match_day r1 = Some (day, r2)"
    using assms w1(1)
    by (auto simp: match_after_month_def ws1_def r1_def Let_def split: if_splits option.splits)
  define ws2 where "ws2 = takeWhile is_space r2"
  define r3 where "r3 = dropWhile is_space r2"
  have r2: "r2 = ws2 @ r3" by (simp add: ws2_def r3_def)
  have body: "ws2 \<noteq> [] \<and> length (take 4 r3) = 4 \<and> list_all is_digit (take 4 r3)
       \<and> word_boundary (Some (last (take 4 r3))) (next_char (drop 4 r3))
       \<and> t = ws1 @ day @ ws2 @ take 4 r3"
    using assms w1(1) md
    by (simp add: match_after_month_def ws1_def [symmetric] r1_def [symmetric] Let_def
        ws2_def [symmetric] r3_def [symmetric] split: if_splits)
  have w2: "list_all is_space ws2"
    by (auto simp: ws2_def list_all_iff dest: set_takeWhileD)
  obtain dd where dd: "r1 = day @ r2" "day = dd @ '',''" "length dd = 1 \<or> length dd = 2"
    "list_all is_digit dd"
    using match_day_Some [OF md] by blast
  have "r = t @ drop 4 r3"
    using r dd(1) r2 body by (metis append.assoc append_take_drop_id)
  moreover have "t = ws1 @ dd @ '','' @ ws2 @ take 4 r3"
    using body dd(2) by simp
  ultimately show ?thesis
    using w1 w2 dd(3,4) body by blast
qed

lemma takeWhile_spaces_then:
  assumes "list_all is_space ws" "rest \<noteq> []" "\<not> is_space (hd rest)"
  shows "takeWhile is_space (ws @ rest) = ws" "dropWhile is_space (ws @ rest) = rest"
proof -
  obtain c r where rest: "rest = c # r" using assms(2) by (cases rest) auto
  have a: "\<forall>x\<in>set ws. is_space x" using assms(1) by (simp add: list_all_iff)
  have "takeWhile is_space (ws @ rest) = ws @ takeWhile is_space rest"
    by (rule takeWhile_append2) (use a in blast)
  then show "takeWhile is_space (ws @ rest) = ws"
    using assms(3) rest by simp
  have "dropWhile is_space (ws @ rest) = dropWhile is_space rest"
    by (rule dropWhile_append2) (use a in blast)
  then show "dropWhile is_space (ws @ rest) = rest"
    using assms(3) rest by simp
qed

lemma match_after_month_complete:
  assumes "ws1 \<noteq> []" "list_all is_space ws1" "length dd = 1 \<or> length dd = 2"
    "list_all is_digit dd" "ws2 \<noteq> []" "list_all is_space ws2" "length y = 4"
    "list_all is_digit y" "word_boundary (Some (last y)) (next_char post)"
  shows "match_after_month (ws1 @ dd @ '','' @ ws2 @ y @ post)
           = Some (ws1 @ dd @ '','' @ ws2 @ y)"
proof -
  have ddne: "dd \<noteq> []" using assms(3) by auto
  then have "is_digit (hd dd)" using assms(4) by (cases dd) auto
  then have h1: "\<not> is_space (hd (dd @ '','' @ ws2 @ y @ post))"
    using ddne digit_not_space by simp
  have yne: "y \<noteq> []" using assms(7) by auto
  then have "is_digit (hd y)" using assms(8) by (cases y) auto
  then have h2: "\<not> is_space (hd (y @ post))"
    using yne digit_not_space by simp
  have t1: "takeWhile is_space (ws1 @ dd @ '','' @ ws2 @ y @ post) = ws1"
    and d1: "dropWhile is_space (ws1 @ dd @ '','' @ ws2 @ y @ post) = dd @ '','' @ ws2 @ y @ post"
    using takeWhile_spaces_then [OF assms(2) _ h1] ddne by simp_all
  have md: "match_day (dd @ '','' @ (ws2 @ y @ post)) = Some (dd @ '','', ws2 @ y @ post)"
    by (rule match_day_complete) (use assms in simp_all)
  have t2: "takeWhile is_space (ws2 @ y @ post) = ws2"
    and d2: "dropWhile is_space (ws2 @ y @ post) = y @ post"
    using takeWhile_spaces_then [OF assms(6) _ h2] yne by simp_all
  show ?thesis
    unfolding match_after_month_def Let_def t1 d1
    using md assms(1,5,7,8,9) by (simp add: t2 d2)
qed

section \<open>The first match of the date pattern\<close>


lemma month_date_shape_last:
  assumes "month_date_shape l"
  shows "l \<noteq> []" "is_digit (last l)"
proof -
  obtain m ws1 dd ws2 y where l: "l = m @ ws1 @ dd @ '','' @ ws2 @ y"
    and y: "length y = 4" "list_all is_digit y"
    using assms unfolding month_date_shape_def by blast
  have yne: "y \<noteq> []" using y(1) by auto
  show "l \<noteq> []" using l by simp
  have "last l = last y" using l yne by simp
  then show "is_digit (last l)"
    using y(2) yne by (simp add: list_all_iff)
qed

lemma match_at_sound:
  assumes "match_month_date_at prev s = Some l"
  shows "\<exists>post. s = l @ post \<and> month_date_shape l \<and> word_boundary prev (next_char s)
           \<and> word_boundary (last_char l) (next_char post)"
proof -
  have wb: "word_boundary prev (next_char s)"
    using assms by (simp add: match_month_date_at_def split: if_splits)
  then have "first_some (\<lambda>m. if take (length m) s = m
                         then map_option (\<lambda>t. m @ t) (match_after_month (drop (length m) s))
                         else None) month_names = Some l"
    using assms by (simp add: match_month_date_at_def)
  then obtain m where m: "m \<in> set month_names"
    and fm: "(if take (length m) s = m
                then map_option (\<lambda>t. m @ t) (match_after_month (drop (length m) s))
                else None) = Some l"
    using first_some_Some by fastforce
  then obtain t where tk: "take (length m) s = m"
    and t: "match_after_month (drop (length m) s) = Some t" and l: "l = m @ t"
    by (auto split: if_splits)
  obtain ws1 dd ws2 y post where d: "drop (length m) s = t @ post"
    and tt: "t = ws1 @ dd @ '','' @ ws2 @ y"
    and p: "ws1 \<noteq> []" "list_all is_space ws1" "length dd = 1 \<or> length dd = 2"
      "list_all is_digit dd" "ws2 \<noteq> []" "list_all is_space ws2" "length y = 4"
      "list_all is_digit y"
    and b: "word_boundary (Some (last y)) (next_char post)"
    using match_after_month_Some [OF t] by blast
  have s: "s = l @ post"
    using tk d l by (metis append.assoc append_take_drop_id)
  have sh: "month_date_shape l"
    unfolding month_date_shape_def using l tt m p by blast
  have yne: "y \<noteq> []" using p(7) by auto
  have "last_char l = Some (last y)"
    using l tt yne by (simp add: last_char_def)
  then show ?thesis
    using s sh wb b by auto
qed

lemma match_at_complete:
  assumes "month_date_at pre l post"
  shows "match_month_date_at (last_char pre) (l @ post) \<noteq> None"
proof -
  obtain m ws1 dd ws2 y where l: "l = m @ ws1 @ dd @ '','' @ ws2 @ y"
    and m: "m \<in> set month_names"
    and p: "ws1 \<noteq> []" "list_all is_space ws1" "length dd = 1 \<or> length dd = 2"
      "list_all is_digit dd" "ws2 \<noteq> []" "list_all is_space ws2" "length y = 4"
      "list_all is_digit y"
    using assms unfolding month_date_at_def month_date_shape_def by blast
  have yne: "y \<noteq> []" using p(7) by auto
  have "last_char l = Some (last y)"
    using l yne by (simp add: last_char_def)
  then have b: "word_boundary (Some (last y)) (next_char post)"
    using assms by (simp add: month_date_at_def)
  have wb: "word_boundary (last_char pre) (next_char (l @ post))"
    using assms by (simp add: month_date_at_def)
  let ?g = "\<lambda>m. if take (length m) (l @ post) = m
                 then map_option (\<lambda>t. m @ t) (match_after_month (drop (length m) (l @ post)))
                 else None"
  have "match_after_month (ws1 @ dd @ '','' @ ws2 @ y @ post) = Some (ws1 @ dd @ '','' @ ws2 @ y)"
    by (rule match_after_month_complete [OF p b])
  then have "?g m \<noteq> None"
    unfolding l by simp
  then have "first_some ?g month_names \<noteq> None"
    using m first_some_not_None [of m month_names ?g] by blast
  then show ?thesis
    using wb by (simp add: match_month_date_at_def)
qed

lemma match_at_Nil: "match_month_date_at prev [] = None"
  by (simp add: match_month_date_at_def month_names_def)

lemma search_None:
  "MONTH_DATE_RE_search prev s = None \<Longrightarrow> s = a @ b
     \<Longrightarrow> match_month_date_at (if a = [] then prev else Some (last a)) b = None"
proof (induction s arbitrary: prev a)
  case Nil
  then show ?case by (simp add: match_at_Nil)
next
  case (Cons c cs)
  have here: "match_month_date_at prev (c # cs) = None"
    and later: "MONTH_DATE_RE_search (Some c) cs = None"
    using Cons.prems(1) by (auto split: option.splits)
  show ?case
  proof (cases a)
    case Nil
    then show ?thesis using here Cons.prems(2) by simp
  next
    case (Cons x a')
    then have "cs = a' @ b" "x = c" using Cons.prems(2) by simp_all
    then show ?thesis
      using Cons.IH [OF later, of a'] Cons by (cases "a' = []") simp_all
  qed
qed

lemma search_Some:
  "MONTH_DATE_RE_search prev s = Some l
     \<Longrightarrow> \<exists>a b. s = a @ b
           \<and> match_month_date_at (if a = [] then prev else Some (last a)) b = Some l
           \<and> (\<forall>a' b'. s = a' @ b' \<and> length a' < length a
                 \<longrightarrow> match_month_date_at (if a' = [] then prev else Some (last a')) b' = None)"
proof (induction s arbitrary: prev)
  case Nil
  then show ?case by simp
next
  case (Cons c cs)
  show ?case
  proof (cases "match_month_date_at prev (c # cs)")
    case (Some m)
    then have "m = l" using Cons.prems by simp
    then have "c # cs = [] @ (c # cs)
        \<and> match_month_date_at (if ([] :: string) = [] then prev else Some (last [])) (c # cs) = Some l
        \<and> (\<forall>a' b'. c # cs = a' @ b' \<and> length a' < length ([] :: string)
              \<longrightarrow> match_month_date_at (if a' = [] then prev else Some (last a')) b' = None)"
      using Some by simp
    then show ?thesis by blast
  next
    case None
    then have later: "MONTH_DATE_RE_search (Some c) cs = Some l"
      using Cons.prems by simp
    obtain a b where ab: "cs = a @ b"
      and mt: "match_month_date_at (if a = [] then Some c else Some (last a)) b = Some l"
      and mn: "\<forall>a' b'. cs = a' @ b' \<and> length a' < length a
                 \<longrightarrow> match_month_date_at (if a' = [] then Some c else Some (last a')) b' = None"
      using Cons.IH [OF later] by blast
    have 1: "c # cs = (c # a) @ b" using ab by simp
    have 2: "match_month_date_at (if c # a = [] then prev else Some (last (c # a))) b = Some l"
      using mt by (cases "a = []") simp_all
    have 3: "\<forall>a' b'. c # cs = a' @ b' \<and> length a' < length (c # a)
                 \<longrightarrow> match_month_date_at (if a' = [] then prev else Some (last a')) b' = None"
    proof (intro allI impI)
      fix a' b' assume h: "c # cs = a' @ b' \<and> length a' < length (c # a)"
      show "match_month_date_at (if a' = [] then prev else Some (last a')) b' = None"
      proof (cases a')
        case Nil
        then show ?thesis using h None by simp
      next
        case (Cons x a'')
        then have c: "cs = a'' @ b'" "x = c" "length a'' < length a" using h by simp_all
        then have "match_month_date_at (if a'' = [] then Some c else Some (last a'')) b' = None"
          using mn by blast
        then show ?thesis
          using Cons c(2) by (cases "a'' = []") simp_all
      qed
    qed
    show ?thesis
      using 1 2 3 by blast
  qed
qed

lemma last_char_alt: "(if a = [] then None else Some (last a)) = last_char a"
  by (simp add: last_char_def)

lemma parse_sheet_date_found:
  assumes "parse_sheet_date full \<noteq> []"
  shows "\<exists>pre post. full = pre @ parse_sheet_date full @ post
           \<and> month_date_at pre (parse_sheet_date full) post
           \<and> (\<forall>pre' l' post'. full = pre' @ l' @ post' \<and> month_date_at pre' l' post'
                 \<longrightarrow> length pre \<le> length pre')"
proof -
  obtain l where s: "MONTH_DATE_RE_search None full = Some l" and l: "parse_sheet_date full = l"
    using assms by (auto simp: parse_sheet_date_def split: option.splits)
  obtain a b where ab: "full = a @ b"
    and mt: "match_month_date_at (last_char a) b = Some l"
    and mn: "\<forall>a' b'. full = a' @ b' \<and> length a' < length a
                 \<longrightarrow> match_month_date_at (last_char a') b' = None"
    using search_Some [OF s] unfolding last_char_alt by blast
  obtain post where b: "b = l @ post" and sh: "month_date_shape l"
    and w1: "word_boundary (last_char a) (next_char b)"
    and w2: "word_boundary (last_char l) (next_char post)"
    using match_at_sound [OF mt] by blast
  have at: "month_date_at a l post"
    using sh w1 w2 b by (simp add: month_date_at_def)
  have least: "\<forall>pre' l' post'. full = pre' @ l' @ post' \<and> month_date_at pre' l' post'
                 \<longrightarrow> length a \<le> length pre'"
  proof (intro allI impI)
    fix pre' l' post' assume h: "full = pre' @ l' @ post' \<and> month_date_at pre' l' post'"
    show "length a \<le> length pre'"
    proof (rule ccontr)
      assume "\<not> length a \<le> length pre'"
      then have "match_month_date_at (last_char pre') (l' @ post') = None"
        using mn h by simp
      then show False
        using match_at_complete [of pre' l' post'] h by simp
    qed
  qed
  show ?thesis
    using ab b at least l by auto
qed

lemma parse_sheet_date_empty_iff:
  "parse_sheet_date full = [] \<longleftrightarrow> \<not> (\<exists>pre l post. full = pre @ l @ post \<and> month_date_at pre l post)"
proof
  assume e: "parse_sheet_date full = []"
  have "MONTH_DATE_RE_search None full = None"
  proof (cases "MONTH_DATE_RE_search None full")
    case None
    then show ?thesis .
  next
    case (Some l)
    then have "l = []" using e by (simp add: parse_sheet_date_def)
    obtain a b where "match_month_date_at (last_char a) b = Some l"
      using search_Some [OF Some] unfolding last_char_alt by blast
    then have "month_date_shape l" using match_at_sound by blast
    then show ?thesis using month_date_shape_last(1) \<open>l = []\<close> by blast
  qed
  then have n: "\<And>a b. full = a @ b \<Longrightarrow> match_month_date_at (last_char a) b = None"
    using search_None [of None full] unfolding last_char_alt by blast
  show "\<not> (\<exists>pre l post. full = pre @ l @ post \<and> month_date_at pre l post)"
  proof
    assume "\<exists>pre l post. full = pre @ l @ post \<and> month_date_at pre l post"
    then obtain pre l post where h: "full = pre @ l @ post" "month_date_at pre l post"
      by blast
    show False
      using n [OF h(1)] match_at_complete [OF h(2)] by simp
  qed
next
  assume n: "\<not> (\<exists>pre l post. full = pre @ l @ post \<and> month_date_at pre l post)"
  show "parse_sheet_date full = []"
  proof (rule ccontr)
    assume "parse_sheet_date full \<noteq> []"
    then show False
      using parse_sheet_date_found [of full] n by blast
  qed
qed

lemma update_set:
  "(k', v') \<in> set (AList.update k v al) \<Longrightarrow> (k', v') = (k, v) \<or> (k', v') \<in> set al"
  by (induction al) (auto split: if_splits)

lemma parse_lines_as_at:
  "(\<And>k q. (k, q) \<in> set out \<Longrightarrow> as_at q = sheet)
     \<Longrightarrow> (k, q) \<in> set (parse_lines want sheet lines out) \<Longrightarrow> as_at q = sheet"
proof (induction lines arbitrary: out)
  case Nil
  then show ?case by simp
next
  case (Cons line rest)
  show ?case
  proof (cases "find_anchor want out (line_tokens line)")
    case None
    then have "parse_lines want sheet (line # rest) out = parse_lines want sheet rest out"
      by (rule parse_lines_skips)
    then show ?thesis
      using Cons by auto
  next
    case (Some a)
    obtain s i where a: "a = (s, i)" by (cases a)
    define q' where "q' = \<lparr>symbol = s, last_price = line_price (line_tokens line) i,
                             as_at = sheet, source = ''JSE_DAILY_PDF''\<rparr>"
    have nonempty: "line_tokens line \<noteq> []" "strip line \<noteq> []"
      using Some line_tokens_blank [of line] by auto
    have step: "parse_lines want sheet (line # rest) out
                  = (if length (AList.update s q' out) = length (remdups want)
                     then AList.update s q' out
                     else parse_lines want sheet rest (AList.update s q' out))"
      using Some a nonempty by (simp add: Let_def q'_def)
    have inv: "as_at q = sheet" if "(k, q) \<in> set (AList.update s q' out)" for k q
    proof -
      have "(k, q) = (s, q') \<or> (k, q) \<in> set out"
        using that by (rule update_set)
      then show ?thesis
        using Cons.prems(1) by (auto simp: q'_def)
    qed
    show ?thesis
      using Cons.prems(2) Cons.IH [OF inv] inv unfolding step
      by (auto split: if_splits)
  qed
qed

text \<open>
  C9. The sheet-date label of a document is extracted once, from the page texts joined by
  line feeds: it is the first substring that matches the pattern of a full month name, a
  day of one or two digits, a comma and a year of four digits, and it is empty when no
  substring matches. Every quote of that parse carries this label.
\<close>

theorem sheet_date_label:
  "(parse_text texts symbols = (out, sheet)
      \<longrightarrow> sheet = parse_sheet_date (join_lines texts)
          \<and> (\<forall>k q. (k, q) \<in> set out \<longrightarrow> as_at q = sheet))
   \<and> (parse_quotes pages b symbols = Inr (out, sheet)
      \<longrightarrow> (\<forall>k q. (k, q) \<in> set out \<longrightarrow> as_at q = sheet))
   \<and> (parse_sheet_date full \<noteq> []
      \<longrightarrow> (\<exists>pre post. full = pre @ parse_sheet_date full @ post
             \<and> month_date_at pre (parse_sheet_date full) post
             \<and> (\<forall>pre' l' post'. full = pre' @ l' @ post' \<and> month_date_at pre' l' post'
                   \<longrightarrow> length pre \<le> length pre')))
   \<and> (parse_sheet_date full = []
        \<longleftrightarrow> \<not> (\<exists>pre l post. full = pre @ l @ post \<and> month_date_at pre l post))"
proof -
  have u: "sheet = parse_sheet_date (join_lines texts)
          \<and> (\<forall>k q. (k, q) \<in> set out \<longrightarrow> as_at q = sheet)"
    if "parse_text texts symbols = (out, sheet)" for texts symbols out sheet
  proof -
    have s: "sheet = parse_sheet_date (join_lines texts)"
      and o: "out = parse_lines symbols sheet (splitlines (join_lines texts)) []"
      using that by (auto simp: parse_text_def Let_def)
    have "as_at q = sheet" if "(k, q) \<in> set out" for k q
      using that unfolding o by (rule parse_lines_as_at [rotated]) simp
    then show ?thesis
      using s by blast
  qed
  have v: "\<forall>k q. (k, q) \<in> set out \<longrightarrow> as_at q = sheet"
    if h: "parse_quotes pages b symbols = Inr (out, sheet)"
  proof -
    obtain ps where "pages b = Inr ps"
      using h by (cases "pages b") (simp_all add: parse_quotes_def)
    then have "parse_text (map (\<lambda>p. case p of None \<Rightarrow> [] | Some t \<Rightarrow> t) ps) symbols = (out, sheet)"
      using h by (simp add: parse_quotes_def)
    then show ?thesis
      using u by blast
  qed
  show ?thesis
    using u [of texts symbols out sheet] v parse_sheet_date_found [of full]
      parse_sheet_date_empty_iff [of full]
    by blast
qed

theorem sheet_date_label_witness:
  "parse_text [''Daily Quote Sheet March 4, 2024'', ''AAA 1.00''] ex_symbols
     = ([(''AAA'', (ex_quote ''AAA'' 1)\<lparr>as_at := ''March 4, 2024''\<rparr>)], ''March 4, 2024'')
   \<and> ''March 4, 2024'' = parse_sheet_date (join_lines [''Daily Quote Sheet March 4, 2024'', ''AAA 1.00''])
   \<and> as_at ((ex_quote ''AAA'' 1)\<lparr>as_at := ''March 4, 2024''\<rparr>) = ''March 4, 2024''
   \<and> parse_sheet_date ''Quotes of March 4, 2024, not of April 15, 2025'' = ''March 4, 2024''
   \<and> (\<exists>pre post. ''Quotes of March 4, 2024, not of April 15, 2025'' = pre @ ''March 4, 2024'' @ post
         \<and> month_date_at pre ''March 4, 2024'' post
         \<and> (\<forall>pre' l' post'. ''Quotes of March 4, 2024, not of April 15, 2025'' = pre' @ l' @ post'
                \<and> month_date_at pre' l' post'
               \<longrightarrow> length pre \<le> length pre'))
   \<and> parse_sheet_date ''March 4,2024 or Mar 4, 2024'' = []
   \<and> \<not> (\<exists>pre l post. ''March 4,2024 or Mar 4, 2024'' = pre @ l @ post \<and> month_date_at pre l post)"
proof -
  let ?T = "[''Daily Quote Sheet March 4, 2024'', ''AAA 1.00'']"
  let ?q = "(ex_quote ''AAA'' 1)\<lparr>as_at := ''March 4, 2024''\<rparr>"
  let ?F = "''Quotes of March 4, 2024, not of April 15, 2025''"
  let ?G = "''March 4,2024 or Mar 4, 2024''"
  note a = sheet_date_label [where texts = ?T and symbols = ex_symbols and out = "[(''AAA'', ?q)]"
      and sheet = "''March 4, 2024''", THEN conjunct1, THEN mp, OF ex_parse_titled]
  have a1: "''March 4, 2024'' = parse_sheet_date (join_lines ?T)"
    using a by blast
  have a2: "as_at ?q = ''March 4, 2024''"
    using a by simp
  have f: "parse_sheet_date ?F = ''March 4, 2024''"
    by code_simp
  then have fne: "parse_sheet_date ?F \<noteq> []"
    by simp
  note b = sheet_date_label [where full = ?F, THEN conjunct2, THEN conjunct2, THEN conjunct1,
      THEN mp, OF fne]
  have b': "\<exists>pre post. ?F = pre @ ''March 4, 2024'' @ post
         \<and> month_date_at pre ''March 4, 2024'' post
         \<and> (\<forall>pre' l' post'. ?F = pre' @ l' @ post' \<and> month_date_at pre' l' post'
               \<longrightarrow> length pre \<le> length pre')"
    using b unfolding f .
  have g: "parse_sheet_date ?G = []"
    by code_simp
  have g': "\<not> (\<exists>pre l post. ?G = pre @ l @ post \<and> month_date_at pre l post)"
    using sheet_date_label [where full = ?G, THEN conjunct2, THEN conjunct2, THEN conjunct2] g
    by blast
  show ?thesis
    using ex_parse_titled a1 a2 f b' g g' by blast
qed

end
